theory Spec2Isabelle
  imports Main "HOL-Library.Word"
begin

section \<open>JavaScript strings\<close>

text \<open>
  A JavaScript string is a sequence of 16-bit code units. The model uses \<open>string\<close>
  (a list of 8-bit characters) and so covers the texts whose code units are below 256;
  on these \<open>length\<close> is the JavaScript \<open>length\<close>. Positions are natural numbers and
  the sentinel \<open>-1\<close> of \<open>indexOf\<close> is \<open>None\<close>.
\<close>

abbreviation bsl :: char where "bsl \<equiv> CHR 0x5C"
abbreviation backtick :: char where "backtick \<equiv> CHR 0x60"
abbreviation LF :: char where "LF \<equiv> CHR 0x0A"
abbreviation CR :: char where "CR \<equiv> CHR 0x0D"

definition code :: "char \<Rightarrow> nat" where
  "code c = of_char c"

definition between :: "char \<Rightarrow> char \<Rightarrow> char \<Rightarrow> bool" where
  "between lo hi c = (code lo \<le> code c \<and> code c \<le> code hi)"

definition is_digit :: "char \<Rightarrow> bool" where
  "is_digit c = between CHR ''0'' CHR ''9'' c"

definition is_lower :: "char \<Rightarrow> bool" where
  "is_lower c = between CHR ''a'' CHR ''z'' c"

definition is_upper :: "char \<Rightarrow> bool" where
  "is_upper c = between CHR ''A'' CHR ''Z'' c"

definition is_alpha :: "char \<Rightarrow> bool" where
  "is_alpha c = (is_lower c \<or> is_upper c)"

text \<open>\<open>\w\<close> is \<open>[A-Za-z0-9_]\<close>.\<close>

definition is_word_char :: "char \<Rightarrow> bool" where
  "is_word_char c = (is_alpha c \<or> is_digit c \<or> c = CHR ''_'')"

text \<open>\<open>\s\<close>, and what \<open>trim\<close> strips: tab, LF, VT, FF, CR, space and U+00A0 (the
  white space and line terminators below 256).\<close>

definition is_space :: "char \<Rightarrow> bool" where
  "is_space c = List.member [CHR 0x09, CHR 0x0A, CHR 0x0B, CHR 0x0C, CHR 0x0D, CHR 0x20, CHR 0xA0] c"

text \<open>The dot of a regular expression matches everything but a line terminator.\<close>

definition is_line_terminator :: "char \<Rightarrow> bool" where
  "is_line_terminator c = List.member [LF, CR] c"

text \<open>\<open>toLowerCase\<close> and \<open>toUpperCase\<close> on one code unit (ASCII and the Latin-1 letters
  whose counterpart is below 256).\<close>

definition to_lower :: "char \<Rightarrow> char" where
  "to_lower c =
     (if is_upper c then char_of (code c + 32)
      else if between CHR 0xC0 CHR 0xDE c \<and> c \<noteq> CHR 0xD7 then char_of (code c + 32)
      else c)"

definition to_upper :: "char \<Rightarrow> char" where
  "to_upper c =
     (if is_lower c then char_of (code c - 32)
      else if between CHR 0xE0 CHR 0xFE c \<and> c \<noteq> CHR 0xF7 then char_of (code c - 32)
      else c)"

definition toLowerCase :: "string \<Rightarrow> string" where
  "toLowerCase s = map to_lower s"

fun is_prefix :: "string \<Rightarrow> string \<Rightarrow> bool" where
  "is_prefix [] ys = True"
| "is_prefix (x # xs) [] = False"
| "is_prefix (x # xs) (y # ys) = (x = y \<and> is_prefix xs ys)"

text \<open>\<open>s.indexOf(p, from)\<close>: the first position at or after \<open>from\<close> where \<open>p\<close> starts.
  \<open>index_in p rest k\<close> searches \<open>rest\<close>, the text from position \<open>k\<close> on.\<close>

fun index_in :: "string \<Rightarrow> string \<Rightarrow> nat \<Rightarrow> nat option" where
  "index_in p [] k = (if p = [] then Some k else None)"
| "index_in p (c # cs) k = (if is_prefix p (c # cs) then Some k else index_in p cs (Suc k))"

definition indexOf :: "string \<Rightarrow> string \<Rightarrow> nat \<Rightarrow> nat option" where
  "indexOf s p from = index_in p (drop from s) (min from (length s))"

definition includes_str :: "string \<Rightarrow> string \<Rightarrow> bool" where
  "includes_str s p = (case indexOf s p 0 of None \<Rightarrow> False | Some k \<Rightarrow> True)"

text \<open>\<open>s.substring(a, b)\<close> clamps both arguments to the length and swaps them when
  \<open>a > b\<close>; \<open>s.substring(a)\<close> runs to the end.\<close>

definition substring :: "string \<Rightarrow> nat \<Rightarrow> nat \<Rightarrow> string" where
  "substring s a b =
     (let a' = min a (length s); b' = min b (length s)
      in take (max a' b' - min a' b') (drop (min a' b') s))"

definition substring_from :: "string \<Rightarrow> nat \<Rightarrow> string" where
  "substring_from s a = drop a s"

definition trim :: "string \<Rightarrow> string" where
  "trim s = rev (dropWhile is_space (rev (dropWhile is_space s)))"

lemma index_in_bounds:
  "index_in p cs k = Some j \<Longrightarrow> k \<le> j \<and> j + length p \<le> k + length cs"
proof (induction cs arbitrary: k)
  case Nil
  then show ?case by (simp split: if_splits)
next
  case (Cons c cs)
  show ?case
  proof (cases "is_prefix p (c # cs)")
    case True
    have "length p \<le> length (c # cs)" using True
    proof (induction p "c # cs" arbitrary: c cs rule: is_prefix.induct)
      case (1 ys)
      then show ?case by simp
    next
      case (3 x xs y ys)
      then show ?case by (cases ys; cases xs) auto
    qed
    with True Cons.prems show ?thesis by simp
  next
    case False
    with Cons.prems have "index_in p cs (Suc k) = Some j" by simp
    from Cons.IH [OF this] show ?thesis by simp
  qed
qed

lemma indexOf_bounds:
  assumes "indexOf s p from = Some j"
  shows "min from (length s) \<le> j" and "j + length p \<le> length s"
proof -
  from assms have h: "index_in p (drop from s) (min from (length s)) = Some j"
    by (simp add: indexOf_def)
  from index_in_bounds [OF h] show "min from (length s) \<le> j" by simp
  from index_in_bounds [OF h] show "j + length p \<le> length s" by (simp add: min_def split: if_splits)
qed

lemma indexOf_ge: "indexOf s p from = Some j \<Longrightarrow> from \<le> length s \<Longrightarrow> from \<le> j"
  using indexOf_bounds(1) [of s p "from" j] by simp

text \<open>\<open>s.split(sep)\<close> for a string separator, and \<open>parts.join(sep)\<close>.\<close>

function split :: "string \<Rightarrow> string \<Rightarrow> string list" where
  "split s sep =
     (if sep = [] then map (\<lambda>c. [c]) s
      else case indexOf s sep 0 of
             None \<Rightarrow> [s]
           | Some k \<Rightarrow> take k s # split (drop (k + length sep) s) sep)"
  by pat_completeness auto
termination
proof (relation "measure (\<lambda>(s, sep). length s)")
  show "wf (measure (\<lambda>(s, sep). length s))" by simp
next
  fix s sep :: string and k
  assume "sep \<noteq> []" and "indexOf s sep 0 = Some k"
  then have "k + length sep \<le> length s" and "0 < length sep"
    using indexOf_bounds(2) by auto
  then show "((drop (k + length sep) s, sep), (s, sep)) \<in> measure (\<lambda>(s, sep). length s)"
    by (cases s) auto
qed

fun join :: "string list \<Rightarrow> string \<Rightarrow> string" where
  "join [] sep = []"
| "join [x] sep = x"
| "join (x # y # ys) sep = x @ sep @ join (y # ys) sep"

text \<open>\<open>n.toString()\<close> and string concatenation with a non-negative integer: decimal digits.\<close>

fun digits_of :: "nat \<Rightarrow> string" where
  "digits_of n = (if n < 10 then [char_of (48 + n)] else digits_of (n div 10) @ [char_of (48 + n mod 10)])"

declare digits_of.simps [simp del]

section \<open>Regular expressions\<close>

text \<open>
  The regular-expression literals of the source are written as terms of \<open>rx\<close>, to be read
  side by side with the literal. \<open>rx_ends ic r s i\<close> lists the positions where a match of
  \<open>r\<close> starting at \<open>i\<close> can end, in the order in which the backtracking matcher of
  JavaScript tries them (greedy quantifiers, alternatives left to right); its head is the
  match JavaScript reports. \<open>ic\<close> is the \<open>i\<close> flag. Capture groups are not recorded: no
  regular expression of the source refers back to one and no caller reads one.
\<close>

datatype citem = Ch char | Rng char char | Digit | WordCh | Space

datatype rx =
    Eps
  | Lit char
  | Dot
  | Set "citem list"
  | NSet "citem list"
  | Seq rx rx
  | Alt rx rx
  | Star rx
  | Bol
  | Eol
  | WordB

fun seq :: "rx list \<Rightarrow> rx" where
  "seq [] = Eps"
| "seq [r] = r"
| "seq (r # rs) = Seq r (seq rs)"

fun alts :: "rx list \<Rightarrow> rx" where
  "alts [] = NSet [Rng CHR 0x00 CHR 0xFF]"
| "alts [r] = r"
| "alts (r # rs) = Alt r (alts rs)"

definition Str :: "string \<Rightarrow> rx" where
  "Str s = seq (map Lit s)"

definition Plus :: "rx \<Rightarrow> rx" where
  "Plus r = Seq r (Star r)"

definition Opt :: "rx \<Rightarrow> rx" where
  "Opt r = Alt r Eps"

definition AtLeast :: "nat \<Rightarrow> rx \<Rightarrow> rx" where
  "AtLeast n r = seq (replicate n r @ [Star r])"

fun citem_has :: "citem \<Rightarrow> char \<Rightarrow> bool" where
  "citem_has (Ch a) c = (a = c)"
| "citem_has (Rng lo hi) c = between lo hi c"
| "citem_has Digit c = is_digit c"
| "citem_has WordCh c = is_word_char c"
| "citem_has Space c = is_space c"

text \<open>With the \<open>i\<close> flag a character matches a class when one of its case variants is
  a member.\<close>

definition class_has :: "bool \<Rightarrow> citem list \<Rightarrow> char \<Rightarrow> bool" where
  "class_has ic items c =
     list_ex (\<lambda>it. citem_has it c \<or> (ic \<and> (citem_has it (to_lower c) \<or> citem_has it (to_upper c)))) items"

definition lit_eq :: "bool \<Rightarrow> char \<Rightarrow> char \<Rightarrow> bool" where
  "lit_eq ic a c = (a = c \<or> (ic \<and> to_upper a = to_upper c))"

definition is_word_at :: "string \<Rightarrow> nat \<Rightarrow> bool" where
  "is_word_at s i = (if i < length s then is_word_char (s ! i) else False)"

definition word_boundary :: "string \<Rightarrow> nat \<Rightarrow> bool" where
  "word_boundary s i = ((if i = 0 then False else is_word_at s (i - 1)) \<noteq> is_word_at s i)"

text \<open>A star iterates greedily; an iteration that matches the empty string is not taken.
  \<open>n\<close> bounds the iterations by the number of characters left.\<close>

primrec star_from :: "(nat \<Rightarrow> nat list) \<Rightarrow> nat \<Rightarrow> nat \<Rightarrow> nat list" where
  "star_from f 0 i = [i]"
| "star_from f (Suc n) i = concat (map (\<lambda>e. if i < e then star_from f n e else []) (f i)) @ [i]"

fun rx_ends :: "bool \<Rightarrow> rx \<Rightarrow> string \<Rightarrow> nat \<Rightarrow> nat list" where
  "rx_ends ic Eps s i = [i]"
| "rx_ends ic (Lit a) s i = (if i < length s then (if lit_eq ic a (s ! i) then [Suc i] else []) else [])"
| "rx_ends ic Dot s i = (if i < length s then (if is_line_terminator (s ! i) then [] else [Suc i]) else [])"
| "rx_ends ic (Set items) s i = (if i < length s then (if class_has ic items (s ! i) then [Suc i] else []) else [])"
| "rx_ends ic (NSet items) s i = (if i < length s then (if class_has ic items (s ! i) then [] else [Suc i]) else [])"
| "rx_ends ic (Seq a b) s i = concat (map (\<lambda>e. rx_ends ic b s e) (rx_ends ic a s i))"
| "rx_ends ic (Alt a b) s i = rx_ends ic a s i @ rx_ends ic b s i"
| "rx_ends ic (Star a) s i = star_from (\<lambda>j. rx_ends ic a s j) (length s - i) i"
| "rx_ends ic Bol s i = (if i = 0 then [i] else [])"
| "rx_ends ic Eol s i = (if i = length s then [i] else [])"
| "rx_ends ic WordB s i = (if word_boundary s i then [i] else [])"

text \<open>\<open>re.exec\<close> from \<open>lastIndex = from\<close>: the first start position with a match, and the
  end of the first match there.\<close>

fun rx_find :: "bool \<Rightarrow> rx \<Rightarrow> string \<Rightarrow> nat list \<Rightarrow> (nat \<times> nat) option" where
  "rx_find ic r s [] = None"
| "rx_find ic r s (i # starts) =
     (case rx_ends ic r s i of [] \<Rightarrow> rx_find ic r s starts | e # _ \<Rightarrow> Some (i, e))"

definition rx_exec :: "bool \<Rightarrow> rx \<Rightarrow> string \<Rightarrow> nat \<Rightarrow> (nat \<times> nat) option" where
  "rx_exec ic r s from = rx_find ic r s [from..<Suc (length s)]"

definition rx_test :: "bool \<Rightarrow> rx \<Rightarrow> string \<Rightarrow> bool" where
  "rx_test ic r s = (case rx_exec ic r s 0 of None \<Rightarrow> False | Some m \<Rightarrow> True)"

lemma rx_find_mem: "rx_find ic r s starts = Some (i, e) \<Longrightarrow> i \<in> set starts"
  by (induction starts) (auto split: list.splits)

lemma rx_exec_bounds: "rx_exec ic r s from = Some (i, e) \<Longrightarrow> from \<le> i \<and> i \<le> length s"
  by (auto simp: rx_exec_def dest!: rx_find_mem)

text \<open>\<open>s.match(re)\<close> with the \<open>g\<close> flag: all matches from left to right (an empty match
  advances by one).\<close>

function rx_match_all :: "bool \<Rightarrow> rx \<Rightarrow> string \<Rightarrow> nat \<Rightarrow> string list" where
  "rx_match_all ic r s from =
     (case rx_exec ic r s from of
        None \<Rightarrow> []
      | Some (i, e) \<Rightarrow> substring s i e # rx_match_all ic r s (if i < e then e else Suc i))"
  by pat_completeness auto
termination
proof (relation "measure (\<lambda>(ic, r, s, from). Suc (length s) - from)")
  show "wf (measure (\<lambda>(ic, r, s, from). Suc (length s) - from))" by simp
next
  fix ic r s "from" m i e
  assume "rx_exec ic r s from = Some m" and "(i, e) = m"
  then have "from \<le> i \<and> i \<le> length s" using rx_exec_bounds [of ic r s "from" i e] by simp
  then show "((ic, r, s, if i < e then e else Suc i), (ic, r, s, from))
       \<in> measure (\<lambda>(ic, r, s, from). Suc (length s) - from)"
    by auto
qed

text \<open>\<open>s.replace(re, callback)\<close> with the \<open>g\<close> flag. The callback of the source closes
  over mutable state, so here it takes the state and returns it with the replacement.\<close>

function rx_replace :: "bool \<Rightarrow> rx \<Rightarrow> (string \<Rightarrow> 'a \<Rightarrow> string \<times> 'a) \<Rightarrow> string \<Rightarrow> nat \<Rightarrow> 'a \<Rightarrow> string \<times> 'a" where
  "rx_replace ic r f s from st =
     (case rx_exec ic r s from of
        None \<Rightarrow> (drop from s, st)
      | Some (i, e) \<Rightarrow>
          (case f (substring s i e) st of
             (rep, st') \<Rightarrow>
               (case rx_replace ic r f s (if i < e then e else Suc i) st' of
                  (rest, st'') \<Rightarrow>
                    (substring s from i @ rep @ (if i < e then [] else take 1 (drop i s)) @ rest, st''))))"
  by pat_completeness auto
termination
proof (relation "measure (\<lambda>(ic, r, f, s, from, st). Suc (length s) - from)")
  show "wf (measure (\<lambda>(ic, r, f, s, from, st). Suc (length s) - from))" by simp
next
  fix ic r and f :: "string \<Rightarrow> 'a \<Rightarrow> string \<times> 'a" and s "from" and st :: 'a and m i e p rep st'
  assume "rx_exec ic r s from = Some m" and "(i, e) = m"
  then have "from \<le> i \<and> i \<le> length s" using rx_exec_bounds [of ic r s "from" i e] by simp
  then show "((ic, r, f, s, if i < e then e else Suc i, st'), (ic, r, f, s, from, st))
       \<in> measure (\<lambda>(ic, r, f, s, from, st). Suc (length s) - from)"
    by auto
qed

section \<open>Hashing utility\<close>

text \<open>
  \<open>hashBase36\<close>: \<open>hash = ((hash << 5) - hash) + char; hash = hash & hash\<close> keeps the hash
  a 32-bit integer (\<open><<\<close> and \<open>&\<close> wrap to 32 bits, and the exact sum in between stays far
  below \<open>2^53\<close>), so the loop is arithmetic on \<open>32 word\<close>. \<open>hash >>> 0\<close> reads the word
  unsigned and \<open>toString(36)\<close> prints it with the digits \<open>0-9a-z\<close>.
\<close>

definition digit36 :: "int \<Rightarrow> char" where
  "digit36 d = (if d < 10 then char_of (48 + d) else char_of (87 + d))"

function toString36 :: "int \<Rightarrow> string" where
  "toString36 n = (if n < 36 then [digit36 n] else toString36 (n div 36) @ [digit36 (n mod 36)])"
  by pat_completeness auto
termination
  by (relation "measure nat") auto

declare toString36.simps [simp del]

definition hash_step :: "32 word \<Rightarrow> char \<Rightarrow> 32 word" where
  "hash_step hash c = (push_bit 5 hash - hash) + of_nat (code c)"

definition hashBase36 :: "string \<Rightarrow> string" where
  "hashBase36 str = (if str = [] then ''0'' else toString36 (uint (foldl hash_step 0 str)))"

section \<open>Currency Heuristic Classifier\<close>

text \<open>The regular expressions of \<open>looksLikeCurrency\<close>, in the order of the source.\<close>

definition rx_digits_sep :: rx where \<comment> \<open>\<open>[\d.,]\<close>\<close>
  "rx_digits_sep = Set [Digit, Ch CHR ''.'', Ch CHR '','']"

definition rx_letter :: rx where \<comment> \<open>\<open>[a-zA-Z]\<close>\<close>
  "rx_letter = Set [Rng CHR ''a'' CHR ''z'', Rng CHR ''A'' CHR ''Z'']"

definition rx_alnum :: rx where \<comment> \<open>\<open>[a-zA-Z0-9]\<close>\<close>
  "rx_alnum = Set [Rng CHR ''a'' CHR ''z'', Rng CHR ''A'' CHR ''Z'', Rng CHR ''0'' CHR ''9'']"

definition rx_tail :: rx where \<comment> \<open>\<open>[,\s)]*\<close>\<close>
  "rx_tail = Star (Set [Ch CHR '','', Space, Ch CHR '')''])"

definition rx_latex :: rx where \<comment> \<open>\<open>/[\\^_{}]/\<close>\<close>
  "rx_latex = Set [Ch bsl, Ch CHR ''^'', Ch CHR ''_'', Ch CHR ''{'', Ch CHR ''}'']"

definition rx_function :: rx where \<comment> \<open>\<open>/[a-zA-Z]\s*\(.*\)/\<close>\<close>
  "rx_function = seq [rx_letter, Star (Set [Space]), Lit CHR ''('', Star Dot, Lit CHR '')'']"

definition rx_equals :: rx where \<comment> \<open>\<open>/=/\<close>\<close>
  "rx_equals = Lit CHR ''=''"

definition rx_compare :: rx where \<comment> \<open>\<open>/[<>]/\<close>\<close>
  "rx_compare = Set [Ch CHR ''<'', Ch CHR ''>'']"

definition rx_list_marker :: rx where \<comment> \<open>\<open>/[\r\n]\s*[-*+#]/\<close>\<close>
  "rx_list_marker = seq [Set [Ch CR, Ch LF], Star (Set [Space]),
     Set [Ch CHR ''-'', Ch CHR ''*'', Ch CHR ''+'', Ch CHR ''#'']]"

definition rx_sentence :: rx where \<comment> \<open>\<open>/[.!?]\s+[A-Z]/\<close>\<close>
  "rx_sentence = seq [Set [Ch CHR ''.'', Ch CHR ''!'', Ch CHR ''?''], Plus (Set [Space]),
     Set [Rng CHR ''A'' CHR ''Z'']]"

definition rx_word3 :: rx where \<comment> \<open>\<open>/\b[a-zA-Z]{3,}\b/g\<close>\<close>
  "rx_word3 = seq [WordB, AtLeast 3 rx_letter, WordB]"

definition rx_markdown :: rx where \<comment> \<open>\<open>/[*#`\[\]]/\<close>\<close>
  "rx_markdown = Set [Ch CHR ''*'', Ch CHR ''#'', Ch backtick, Ch CHR ''['', Ch CHR '']'']"

definition rx_pure_number :: rx where \<comment> \<open>\<open>/^[\d.,]+[,\s]*$/\<close>\<close>
  "rx_pure_number = seq [Bol, Plus rx_digits_sep, Star (Set [Ch CHR '','', Space]), Eol]"

definition rx_range_head :: rx where \<comment> \<open>\<open>/^[\d.,]+\s*-?\s*$/\<close>\<close>
  "rx_range_head = seq [Bol, Plus rx_digits_sep, Star (Set [Space]), Opt (Lit CHR ''-''),
     Star (Set [Space]), Eol]"

definition rx_magnitude :: rx where \<comment> \<open>\<open>/^[\d.,]+[kKmMbB]?(?:\/\w+)?[,\s)]*$/\<close>\<close>
  "rx_magnitude = seq [Bol, Plus rx_digits_sep,
     Opt (Set [Ch CHR ''k'', Ch CHR ''K'', Ch CHR ''m'', Ch CHR ''M'', Ch CHR ''b'', Ch CHR ''B'']),
     Opt (seq [Lit CHR ''/'', Plus (Set [WordCh])]), rx_tail, Eol]"

definition rx_per_unit :: rx where \<comment> \<open>\<open>/^\d+(?:\.\d+)?\/\w+[,\s)]*$/\<close>\<close>
  "rx_per_unit = seq [Bol, Plus (Set [Digit]), Opt (seq [Lit CHR ''.'', Plus (Set [Digit])]),
     Lit CHR ''/'', Plus (Set [WordCh]), rx_tail, Eol]"

definition rx_infix :: rx where \<comment> \<open>\<open>/[a-zA-Z0-9]\s*[+\-*/]\s*[a-zA-Z0-9]/\<close>\<close>
  "rx_infix = seq [rx_alnum, Star (Set [Space]),
     Set [Ch CHR ''+'', Ch CHR ''-'', Ch CHR ''*'', Ch CHR ''/''], Star (Set [Space]), rx_alnum]"

definition rx_leading_digit :: rx where \<comment> \<open>\<open>/^\d/\<close>\<close>
  "rx_leading_digit = seq [Bol, Set [Digit]]"

definition rx_word :: rx where \<comment> \<open>\<open>/\b[a-zA-Z]+\b/g\<close>\<close>
  "rx_word = seq [WordB, Plus rx_letter, WordB]"

definition rx_variable :: rx where \<comment> \<open>\<open>/^[a-z][0-9]*$/i\<close>\<close>
  "rx_variable = seq [Bol, Set [Rng CHR ''a'' CHR ''z''], Star (Set [Rng CHR ''0'' CHR ''9'']), Eol]"

definition rx_currency_shape :: rx where
  \<comment> \<open>\<open>/^[\d.,\s$\-/]+(\s*(per|unit|each|k|m|b|million|billion|thousand))?$/i\<close>\<close>
  "rx_currency_shape = seq [Bol,
     Plus (Set [Digit, Ch CHR ''.'', Ch CHR '','', Space, Ch CHR ''$'', Ch CHR ''-'', Ch CHR ''/'']),
     Opt (seq [Star (Set [Space]),
       alts [Str ''per'', Str ''unit'', Str ''each'', Str ''k'', Str ''m'', Str ''b'',
             Str ''million'', Str ''billion'', Str ''thousand'']]),
     Eol]"

definition rx_comma_word :: rx where \<comment> \<open>\<open>/,\s+[a-zA-Z]/\<close>\<close>
  "rx_comma_word = seq [Lit CHR '','', Plus (Set [Space]), rx_letter]"

definition rx_colon :: rx where \<comment> \<open>\<open>/:/\<close>\<close>
  "rx_colon = Lit CHR '':''"

definition rx_non_letter :: rx where \<comment> \<open>\<open>/[^a-zA-Z]/g\<close>\<close>
  "rx_non_letter = NSet [Rng CHR ''a'' CHR ''z'', Rng CHR ''A'' CHR ''Z'']"

definition latexCommands :: "string list" where
  "latexCommands =
     [''frac'', ''sqrt'', ''sum'', ''prod'', ''int'', ''lim'', ''log'', ''sin'', ''cos'', ''tan'',
      ''alpha'', ''beta'', ''gamma'', ''delta'', ''theta'', ''lambda'', ''sigma'', ''omega'',
      ''infty'', ''partial'', ''nabla'', ''cdot'', ''times'', ''div'', ''pm'', ''mp'',
      ''leq'', ''geq'', ''neq'', ''approx'', ''equiv'', ''subset'', ''supset'',
      ''mathbb'', ''mathcal'', ''mathrm'', ''text'', ''left'', ''right'', ''begin'', ''end'',
      ''ln'', ''exp'', ''pi'']"

definition currencyConnectors :: "string list" where
  "currencyConnectors = [''or'', ''to'', ''and'', ''per'', ''a'', ''an'', ''the'']"

text \<open>\<open>content.replace(re, '')\<close> with a constant replacement.\<close>

definition rx_remove_all :: "rx \<Rightarrow> string \<Rightarrow> string" where
  "rx_remove_all r s = fst (rx_replace False r (\<lambda>m u. ([], u)) s 0 ())"

definition looksLikeCurrency :: "string \<Rightarrow> bool" where
  "looksLikeCurrency content =
     (if content = [] \<or> trim content = [] then True
      else if rx_test False rx_latex content then False
      else if rx_test False rx_function content then False
      else if rx_test False rx_equals content then False
      else if rx_test False rx_compare content then False
      else if rx_test False rx_list_marker content then True
      else if rx_test False rx_sentence content then True
      else if 2 \<le> length (filter (\<lambda>w. \<not> List.member latexCommands (toLowerCase w))
                             (rx_match_all False rx_word3 content 0)) then True
      else if rx_test False rx_markdown content then True
      else if rx_test False rx_pure_number content then True
      else if rx_test False rx_range_head content then True
      else if rx_test False rx_magnitude content then True
      else if rx_test False rx_per_unit content then True
      else if rx_test False rx_letter content \<and> rx_test False rx_infix content then False
      else if rx_test False rx_leading_digit content
              \<and> 0 < length (rx_match_all False rx_word content 0)
              \<and> length (filter (\<lambda>w. \<not> List.member currencyConnectors (toLowerCase w))
                                (rx_match_all False rx_word content 0)) = 0 then True
      else if rx_test True rx_variable (trim content) then False
      else if rx_test True rx_currency_shape content then True
      else if rx_test False rx_leading_digit content
              \<and> (rx_test False rx_comma_word content \<or> rx_test False rx_colon content) then True
      else if length content < 20 \<and> length (rx_remove_all rx_non_letter content) \<le> 3 then True
      else length content < 10)"

section \<open>Base64 helpers\<close>

text \<open>
  \<open>encodeBase64(str) = btoa(unescape(encodeURIComponent(str)))\<close> writes the UTF-8 bytes of
  \<open>str\<close> in Base64, and \<open>decodeBase64(str) = decodeURIComponent(escape(atob(str)))\<close> reads
  them back, returning the raw bytes when they are not UTF-8. \<open>btoa\<close>, \<open>atob\<close> and the URI
  functions belong to the platform; they are modelled here by what the platform specifies,
  for code units below 256. \<open>atob\<close> throws on a malformed argument: \<open>None\<close>.
\<close>

definition byte :: "char \<Rightarrow> int" where
  "byte c = of_char c"

definition byte_char :: "int \<Rightarrow> char" where
  "byte_char n = char_of (n mod 256)"

definition utf8_encode :: "string \<Rightarrow> string" where
  "utf8_encode s =
     concat (map (\<lambda>c. if byte c < 128 then [c]
                        else [byte_char (192 + byte c div 64), byte_char (128 + byte c mod 64)]) s)"

text \<open>The decoder reads the one-byte and the two-byte sequences of code points below 256;
  any other byte sequence is malformed UTF-8 or lies outside the model.\<close>

fun utf8_decode :: "string \<Rightarrow> string option" where
  "utf8_decode [] = Some []"
| "utf8_decode [a] = (if byte a < 128 then Some [a] else None)"
| "utf8_decode (a # b # rest) =
     (if byte a < 128 then map_option ((#) a) (utf8_decode (b # rest))
      else if (byte a = 194 \<or> byte a = 195) \<and> 128 \<le> byte b \<and> byte b < 192
        then map_option ((#) (byte_char ((byte a - 192) * 64 + (byte b - 128)))) (utf8_decode rest)
      else None)"

definition b64_alphabet :: string where
  "b64_alphabet = ''ABCDEFGHIJKLMNOPQRSTUVWXYZabcdefghijklmnopqrstuvwxyz0123456789+/''"

definition b64_char :: "int \<Rightarrow> char" where
  "b64_char n = b64_alphabet ! nat (n mod 64)"

fun b64_index :: "string \<Rightarrow> char \<Rightarrow> int" where
  "b64_index [] c = 0"
| "b64_index (a # rest) c = (if a = c then 0 else 1 + b64_index rest c)"

fun btoa :: "string \<Rightarrow> string" where
  "btoa [] = []"
| "btoa [a] =
     (let n = byte a * 65536
      in [b64_char (n div 262144), b64_char (n div 4096), CHR ''='', CHR ''=''])"
| "btoa [a, b] =
     (let n = byte a * 65536 + byte b * 256
      in [b64_char (n div 262144), b64_char (n div 4096), b64_char (n div 64), CHR ''=''])"
| "btoa (a # b # c # rest) =
     (let n = byte a * 65536 + byte b * 256 + byte c
      in [b64_char (n div 262144), b64_char (n div 4096), b64_char (n div 64), b64_char n]
         @ btoa rest)"

fun atob_groups :: "string \<Rightarrow> string" where
  "atob_groups (a # b # c # d # rest) =
     (let n = b64_index b64_alphabet a * 262144 + b64_index b64_alphabet b * 4096
              + b64_index b64_alphabet c * 64 + b64_index b64_alphabet d
      in [byte_char (n div 65536), byte_char (n div 256), byte_char n] @ atob_groups rest)"
| "atob_groups [a, b, c] =
     (let n = b64_index b64_alphabet a * 262144 + b64_index b64_alphabet b * 4096
              + b64_index b64_alphabet c * 64
      in [byte_char (n div 65536), byte_char (n div 256)])"
| "atob_groups [a, b] =
     (let n = b64_index b64_alphabet a * 262144 + b64_index b64_alphabet b * 4096
      in [byte_char (n div 65536)])"
| "atob_groups rest = []"

definition strip_padding :: "string \<Rightarrow> string" where
  "strip_padding d =
     (if length d mod 4 = 0 then
        (if 2 \<le> length d \<and> drop (length d - 2) d = ''=='' then take (length d - 2) d
         else if 1 \<le> length d \<and> drop (length d - 1) d = ''='' then take (length d - 1) d
         else d)
      else d)"

definition atob :: "string \<Rightarrow> string option" where
  "atob str =
     (let d = strip_padding (filter (\<lambda>c. \<not> List.member [CHR 0x09, CHR 0x0A, CHR 0x0C, CHR 0x0D, CHR 0x20] c) str)
      in if length d mod 4 = 1 then None
         else if list_all (List.member b64_alphabet) d then Some (atob_groups d)
         else None)"

definition encodeBase64 :: "string \<Rightarrow> string" where
  "encodeBase64 str = btoa (utf8_encode str)"

definition decodeBase64 :: "string \<Rightarrow> string option" where
  "decodeBase64 str =
     (case atob str of
        None \<Rightarrow> None
      | Some bytes \<Rightarrow> (case utf8_decode bytes of Some s \<Rightarrow> Some s | None \<Rightarrow> Some bytes))"

section \<open>Math Protection Engine\<close>

subsection \<open>Data model\<close>

text \<open>
  The delimiter table of the constructor is a fixed list of four object literals
  \<open>{left, right, display, priority}\<close>; a delimiter is one of them, and the fields are read
  off the literal.
\<close>

datatype delim = DoubleDollar | BracketDisplay | ParenInline | SingleDollar

fun left :: "delim \<Rightarrow> string" where
  "left DoubleDollar = ''$$''"
| "left BracketDisplay = [bsl, CHR ''['']"
| "left ParenInline = [bsl, CHR ''('']"
| "left SingleDollar = ''$''"

fun right :: "delim \<Rightarrow> string" where
  "right DoubleDollar = ''$$''"
| "right BracketDisplay = [bsl, CHR '']'']"
| "right ParenInline = [bsl, CHR '')'']"
| "right SingleDollar = ''$''"

fun display :: "delim \<Rightarrow> bool" where
  "display DoubleDollar = True"
| "display BracketDisplay = True"
| "display ParenInline = False"
| "display SingleDollar = False"

fun priority :: "delim \<Rightarrow> nat" where
  "priority DoubleDollar = 1"
| "priority BracketDisplay = 2"
| "priority ParenInline = 3"
| "priority SingleDollar = 4"

record mathInfo =
  original :: string
  encodedOriginal :: string
  mathDisplay :: bool
  innerContent :: string
  delimiter :: delim
  isPending :: bool

text \<open>A JavaScript \<open>Map\<close> keeps its keys in insertion order; \<open>set\<close> on a key that is
  present replaces the value where it stands.\<close>

type_synonym ('k, 'v) jsmap = "('k \<times> 'v) list"

fun map_set :: "('k, 'v) jsmap \<Rightarrow> 'k \<Rightarrow> 'v \<Rightarrow> ('k, 'v) jsmap" where
  "map_set [] k v = [(k, v)]"
| "map_set ((k', v') # m) k v = (if k' = k then (k, v) # m else (k', v') # map_set m k v)"

record protector =
  counter :: nat
  currencyCounter :: nat
  renderOnRestore :: bool
  debug :: bool
  delimiters :: "delim list"
  currencyMap :: "(string, string) jsmap"

text \<open>The constructor; \<open>Array.prototype.sort\<close> is stable, as \<open>sort_key\<close> is.\<close>

definition new_MathProtector :: "bool \<Rightarrow> bool \<Rightarrow> protector" where
  "new_MathProtector render_on_restore dbg =
     \<lparr> counter = 0, currencyCounter = 0, renderOnRestore = render_on_restore, debug = dbg,
       delimiters = sort_key priority [DoubleDollar, BracketDisplay, ParenInline, SingleDollar],
       currencyMap = [] \<rparr>"

definition reset :: "protector \<Rightarrow> protector" where
  "reset p = p\<lparr> counter := 0, currencyCounter := 0, currencyMap := [] \<rparr>"

subsection \<open>Delimiter Scanner\<close>

definition char_at :: "string \<Rightarrow> nat \<Rightarrow> char option" where
  "char_at s i = (if i < length s then Some (s ! i) else None)"

definition isInsideBackticks :: "string \<Rightarrow> nat \<Rightarrow> bool" where
  "isInsideBackticks content position =
     (length (filter (\<lambda>c. c = backtick) (take position content)) mod 2 = 1)"

text \<open>\<open>afterDelim.split(/[\s\n]/)[0]\<close>: the text before the first white-space character.\<close>

definition first_token :: "string \<Rightarrow> string" where
  "first_token s = takeWhile (\<lambda>c. \<not> is_space c) s"

definition rx_cur_token :: rx where \<comment> \<open>\<open>/::CUR\d+::/\<close>\<close>
  "rx_cur_token = seq [Str ''::CUR'', Plus (Set [Digit]), Str ''::'']"

text \<open>The inner loop that finds the closer of a single dollar: it stops at the paragraph
  break and steps over a closer that is escaped.\<close>

function find_closing_dollar :: "string \<Rightarrow> string \<Rightarrow> nat option \<Rightarrow> nat \<Rightarrow> nat option" where
  "find_closing_dollar result rdelim nextParagraphBreak tempPos =
     (if tempPos < length result then
        (case indexOf result rdelim tempPos of
           None \<Rightarrow> None
         | Some foundPos \<Rightarrow>
             if (case nextParagraphBreak of None \<Rightarrow> False | Some npb \<Rightarrow> npb < foundPos) then None
             else if 0 < foundPos \<and> char_at result (foundPos - 1) = Some bsl
               then find_closing_dollar result rdelim nextParagraphBreak (foundPos + 1)
             else Some foundPos)
      else None)"
  by pat_completeness auto
termination
proof (relation "measure (\<lambda>(result, rdelim, npb, tempPos). length result - tempPos)")
  show "wf (measure (\<lambda>(result, rdelim, npb, tempPos). length result - tempPos))" by simp
next
  fix result rdelim :: string and nextParagraphBreak :: "nat option" and tempPos foundPos :: nat
  assume "tempPos < length result" and "indexOf result rdelim tempPos = Some foundPos"
  then have "tempPos \<le> foundPos" using indexOf_ge by simp
  with \<open>tempPos < length result\<close>
  show "((result, rdelim, nextParagraphBreak, foundPos + 1), (result, rdelim, nextParagraphBreak, tempPos))
       \<in> measure (\<lambda>(result, rdelim, npb, tempPos). length result - tempPos)"
    by simp
qed

definition find_right :: "delim \<Rightarrow> string \<Rightarrow> nat \<Rightarrow> nat option" where
  "find_right d result leftPos =
     (if left d = ''$$'' then
        (if leftPos + length (left d) < length result
         then indexOf result (right d) (leftPos + length (left d)) else None)
      else if left d = ''$'' then
        find_closing_dollar result (right d) (indexOf result [LF, LF] leftPos) (leftPos + length (left d))
      else indexOf result (right d) (leftPos + length (left d)))"

text \<open>The state of one run of \<open>extractAndReplace\<close>: the local variables \<open>result\<close> and
  \<open>searchPos\<close>, the map passed in, and \<open>this.counter\<close>.\<close>

record scan =
  result :: string
  searchPos :: nat
  mathMap :: "(string, mathInfo) jsmap"
  this_counter :: nat

datatype 'a flow = Continue 'a | Break 'a

text \<open>No closing delimiter: the branch \<open>if (rightPos === -1)\<close>.\<close>

definition pending_step :: "delim \<Rightarrow> scan \<Rightarrow> nat \<Rightarrow> scan flow" where
  "pending_step d st leftPos =
     (let pendingContent = substring_from (result st) leftPos;
          afterDelim = substring_from pendingContent (length (left d))
      in if left d = ''$'' \<and> looksLikeCurrency (first_token afterDelim)
         then Continue (st\<lparr> searchPos := leftPos + 1 \<rparr>)
         else
           (let sameParagraphContent = indexOf (result st) [LF, LF] leftPos;
                checkContent =
                  (case sameParagraphContent of
                     Some p \<Rightarrow> substring (result st) (leftPos + length (left d)) p
                   | None \<Rightarrow> afterDelim)
            in if 0 < length checkContent \<and>
                  (includes_str checkContent [bsl] \<or> includes_str checkContent ''^'' \<or>
                   includes_str checkContent ''{'' \<or> includes_str checkContent ''begin'' \<or>
                   includes_str checkContent ''frac'')
               then
                 (let endPos = (case sameParagraphContent of Some p \<Rightarrow> p | None \<Rightarrow> length (result st));
                      limitedPendingContent = substring (result st) leftPos endPos;
                      placeholder = ''::PENDINGMATH'' @ digits_of (this_counter st) @ ''::''
                  in Continue
                       \<lparr> result = substring (result st) 0 leftPos @ placeholder
                                  @ substring_from (result st) endPos,
                         searchPos = leftPos + length placeholder,
                         mathMap = map_set (mathMap st) placeholder
                           \<lparr> original = limitedPendingContent,
                             encodedOriginal = encodeBase64 limitedPendingContent,
                             mathDisplay = display d,
                             innerContent = checkContent,
                             delimiter = d,
                             isPending = True \<rparr>,
                         this_counter = this_counter st + 1 \<rparr>)
               else Break st))"

text \<open>A closing delimiter at \<open>rightPos\<close>.\<close>

definition complete_step :: "delim \<Rightarrow> scan \<Rightarrow> nat \<Rightarrow> nat \<Rightarrow> scan flow" where
  "complete_step d st leftPos rightPos =
     (let mathStart = leftPos;
          mathEnd = rightPos + length (right d);
          mathExpression = substring (result st) mathStart mathEnd;
          inner = substring (result st) (leftPos + length (left d)) rightPos
      in if trim inner = [] then Continue (st\<lparr> searchPos := mathEnd \<rparr>)
         else if left d = ''$'' \<and> (includes_str inner [LF] \<or> includes_str inner [CR])
           then Continue (st\<lparr> searchPos := leftPos + 1 \<rparr>)
         else if rx_test False rx_cur_token inner
           then Continue (st\<lparr> searchPos := leftPos + 1 \<rparr>)
         else if left d = ''$'' \<and> looksLikeCurrency inner
           then Continue (st\<lparr> searchPos := leftPos + 1 \<rparr>)
         else
           (let placeholder = ''::MATH_'' @ digits_of (this_counter st) @ ''::''
            in Continue
                 \<lparr> result = substring (result st) 0 mathStart @ placeholder
                            @ substring_from (result st) mathEnd,
                   searchPos = mathStart + length placeholder,
                   mathMap = map_set (mathMap st) placeholder
                     \<lparr> original = mathExpression,
                       encodedOriginal = encodeBase64 mathExpression,
                       mathDisplay = display d,
                       innerContent = inner,
                       delimiter = d,
                       isPending = False \<rparr>,
                   this_counter = this_counter st + 1 \<rparr>))"

text \<open>One iteration of the \<open>while\<close> loop of \<open>extractAndReplace\<close>, entered with
  \<open>searchPos < result.length\<close>.\<close>

definition scan_step :: "delim \<Rightarrow> scan \<Rightarrow> scan flow" where
  "scan_step d st =
     (case indexOf (result st) (left d) (searchPos st) of
        None \<Rightarrow> Break st
      | Some leftPos \<Rightarrow>
          if left d = ''$'' \<and> 0 < leftPos \<and> char_at (result st) (leftPos - 1) = Some bsl
            then Continue (st\<lparr> searchPos := leftPos + 1 \<rparr>)
          else if left d = ''$'' \<and> isInsideBackticks (result st) leftPos
            then Continue (st\<lparr> searchPos := leftPos + 1 \<rparr>)
          else
            (case find_right d (result st) leftPos of
               None \<Rightarrow> pending_step d st leftPos
             | Some rightPos \<Rightarrow> complete_step d st leftPos rightPos))"

lemma index_in_prefix: "index_in p cs k = Some j \<Longrightarrow> is_prefix p (drop (j - k) cs)"
proof (induction cs arbitrary: k)
  case Nil
  then show ?case by (simp split: if_splits)
next
  case (Cons c cs)
  show ?case
  proof (cases "is_prefix p (c # cs)")
    case True
    with Cons.prems show ?thesis by simp
  next
    case False
    with Cons.prems have h: "index_in p cs (Suc k) = Some j" by simp
    from index_in_bounds [OF h] have "Suc k \<le> j" by simp
    then have "j - k = Suc (j - Suc k)" by simp
    with Cons.IH [OF h] show ?thesis by simp
  qed
qed

lemma indexOf_prefix:
  assumes "indexOf s p from = Some j" and "from \<le> length s"
  shows "is_prefix p (drop j s)"
proof -
  from assms have h: "index_in p (drop from s) from = Some j"
    by (simp add: indexOf_def min_def)
  from index_in_bounds [OF h] have "from \<le> j" by simp
  with index_in_prefix [OF h] show ?thesis by simp
qed

lemma left_not_paragraph_break:
  "is_prefix (left d) xs \<Longrightarrow> is_prefix [LF, LF] xs \<Longrightarrow> False"
  by (cases d; cases xs) auto

lemma left_nonempty: "0 < length (left d)"
  by (cases d) auto

declare find_closing_dollar.simps [simp del]

lemma find_closing_dollar_ge:
  "find_closing_dollar res rd npb tempPos = Some r \<Longrightarrow> tempPos \<le> r"
proof (induction res rd npb tempPos rule: find_closing_dollar.induct)
  case (1 res rd npb tempPos)
  note unfold = find_closing_dollar.simps [of res rd npb tempPos]
  show ?case
  proof (cases "tempPos < length res")
    case False
    with "1.prems" show ?thesis by (simp add: unfold)
  next
    case True
    with "1.prems" obtain foundPos where f: "indexOf res rd tempPos = Some foundPos"
      by (auto simp: unfold split: option.splits)
    from indexOf_ge [OF f] True have ge: "tempPos \<le> foundPos" by simp
    from "1.prems" True f
    have nb: "\<not> (case npb of None \<Rightarrow> False | Some n \<Rightarrow> n < foundPos)"
      by (auto simp: unfold split: if_splits)
    show ?thesis
    proof (cases "0 < foundPos \<and> char_at res (foundPos - 1) = Some bsl")
      case esc: True
      with "1.prems" True f nb
      have "find_closing_dollar res rd npb (foundPos + 1) = Some r"
        by (simp add: unfold)
      with "1.IH" [OF True f nb esc] have "foundPos + 1 \<le> r" by simp
      with ge show ?thesis by simp
    next
      case False
      with "1.prems" True f nb have "r = foundPos"
        by (auto simp: unfold)
      with ge show ?thesis by simp
    qed
  qed
qed

lemma find_right_ge:
  assumes "find_right d res leftPos = Some r" and "leftPos + length (left d) \<le> length res"
  shows "leftPos + length (left d) \<le> r"
proof (cases d)
  case DoubleDollar
  with assms show ?thesis
    by (auto simp: find_right_def split: if_splits dest: indexOf_ge)
next
  case BracketDisplay
  with assms show ?thesis
    by (auto simp: find_right_def split: if_splits dest: indexOf_ge)
next
  case ParenInline
  with assms show ?thesis
    by (auto simp: find_right_def split: if_splits dest: indexOf_ge)
next
  case SingleDollar
  with assms show ?thesis
    by (auto simp: find_right_def dest: find_closing_dollar_ge)
qed

lemma length_substring_0: "length (substring s 0 k) = min k (length s)"
  by (simp add: substring_def Let_def)

text \<open>Every iteration that continues moves the cursor forward and leaves a strictly shorter
  unscanned suffix, also when the placeholder is longer than the span it replaces.\<close>

lemma pending_step_progress:
  assumes sp: "searchPos st \<le> leftPos" and lt: "searchPos st < length (result st)"
    and lp: "is_prefix (left d) (drop leftPos (result st))" and ll: "leftPos \<le> length (result st)"
    and c: "pending_step d st leftPos = Continue st'"
  shows "searchPos st < searchPos st' \<and>
         length (result st') - searchPos st' < length (result st) - searchPos st"
proof -
  let ?ph = "''::PENDINGMATH'' @ digits_of (this_counter st) @ ''::''"
  let ?endPos = "case indexOf (result st) [LF, LF] leftPos of Some p \<Rightarrow> p | None \<Rightarrow> length (result st)"
  from c consider
      (skip) "st' = st\<lparr> searchPos := leftPos + 1 \<rparr>"
    | (pend) "result st' = substring (result st) 0 leftPos @ ?ph @ substring_from (result st) ?endPos"
             "searchPos st' = leftPos + length ?ph"
    by (auto simp: pending_step_def Let_def split: if_splits)
  then show ?thesis
  proof cases
    case skip
    with sp lt show ?thesis by auto
  next
    case pend
    have e: "leftPos < ?endPos \<or> ?endPos = length (result st)"
    proof (cases "indexOf (result st) [LF, LF] leftPos")
      case None
      then show ?thesis by simp
    next
      case (Some p)
      from indexOf_ge [OF Some ll] have ge: "leftPos \<le> p" .
      have "p \<noteq> leftPos"
      proof
        assume "p = leftPos"
        with indexOf_prefix [OF Some ll] lp show False
          using left_not_paragraph_break by blast
      qed
      with ge Some show ?thesis by simp
    qed
    from pend ll have "length (result st') - searchPos st' = length (result st) - ?endPos"
      by (simp add: length_substring_0 substring_from_def)
    with pend(2) sp lt e show ?thesis by auto
  qed
qed

lemma complete_step_progress:
  assumes sp: "searchPos st \<le> leftPos" and lt: "searchPos st < length (result st)"
    and ll: "leftPos \<le> length (result st)" and rp: "leftPos < rightPos"
    and c: "complete_step d st leftPos rightPos = Continue st'"
  shows "searchPos st < searchPos st' \<and>
         length (result st') - searchPos st' < length (result st) - searchPos st"
proof -
  let ?ph = "''::MATH_'' @ digits_of (this_counter st) @ ''::''"
  let ?mathEnd = "rightPos + length (right d)"
  from c consider
      (skip) "st' = st\<lparr> searchPos := ?mathEnd \<rparr>"
    | (advance) "st' = st\<lparr> searchPos := leftPos + 1 \<rparr>"
    | (math) "result st' = substring (result st) 0 leftPos @ ?ph @ substring_from (result st) ?mathEnd"
             "searchPos st' = leftPos + length ?ph"
    by (auto simp: complete_step_def Let_def split: if_splits)
  then show ?thesis
  proof cases
    case skip
    with sp lt rp show ?thesis by auto
  next
    case advance
    with sp lt show ?thesis by auto
  next
    case math
    from math ll have "length (result st') - searchPos st' = length (result st) - ?mathEnd"
      by (simp add: length_substring_0 substring_from_def)
    with math(2) sp lt rp show ?thesis by simp
  qed
qed

lemma scan_step_progress:
  assumes lt: "searchPos st < length (result st)" and c: "scan_step d st = Continue st'"
  shows "searchPos st < searchPos st' \<and>
         length (result st') - searchPos st' < length (result st) - searchPos st"
proof -
  from c obtain leftPos where l: "indexOf (result st) (left d) (searchPos st) = Some leftPos"
    by (auto simp: scan_step_def split: option.splits)
  from lt have le: "searchPos st \<le> length (result st)" by simp
  from indexOf_ge [OF l le] have sp: "searchPos st \<le> leftPos" .
  from indexOf_bounds(2) [OF l] have lb: "leftPos + length (left d) \<le> length (result st)" .
  then have ll: "leftPos \<le> length (result st)" by simp
  from indexOf_prefix [OF l le] have lp: "is_prefix (left d) (drop leftPos (result st))" .
  from c l consider
      (esc) "st' = st\<lparr> searchPos := leftPos + 1 \<rparr>"
    | (pending) "find_right d (result st) leftPos = None" "pending_step d st leftPos = Continue st'"
    | (complete) rightPos where "find_right d (result st) leftPos = Some rightPos"
        "complete_step d st leftPos rightPos = Continue st'"
    by (auto simp: scan_step_def split: if_splits option.splits)
  then show ?thesis
  proof cases
    case esc
    with sp lt show ?thesis by auto
  next
    case pending
    from pending_step_progress [OF sp lt lp ll pending(2)] show ?thesis .
  next
    case complete
    from find_right_ge [OF complete(1) lb] left_nonempty [of d] have "leftPos < rightPos"
      by linarith
    from complete_step_progress [OF sp lt ll this complete(2)] show ?thesis .
  qed
qed

text \<open>The \<open>while (searchPos < result.length)\<close> loop of \<open>extractAndReplace\<close>.\<close>

function extractAndReplace_loop :: "delim \<Rightarrow> scan \<Rightarrow> scan" where
  "extractAndReplace_loop d st =
     (if searchPos st < length (result st) then
        (case scan_step d st of
           Break st' \<Rightarrow> st'
         | Continue st' \<Rightarrow> extractAndReplace_loop d st')
      else st)"
  by pat_completeness auto
termination
proof (relation "measure (\<lambda>(d, st). length (result st) - searchPos st)")
  show "wf (measure (\<lambda>(d, st). length (result st) - searchPos st))" by simp
next
  fix d st st'
  assume "searchPos st < length (result st)" and "scan_step d st = Continue st'"
  from scan_step_progress [OF this]
  show "((d, st'), (d, st)) \<in> measure (\<lambda>(d, st). length (result st) - searchPos st)" by simp
qed

declare extractAndReplace_loop.simps [simp del]

text \<open>\<open>extractAndReplace(content, delim, mathMap)\<close>, with \<open>this.counter\<close> passed in and
  returned: the new text, the map and the counter.\<close>

definition extractAndReplace ::
  "nat \<Rightarrow> string \<Rightarrow> delim \<Rightarrow> (string, mathInfo) jsmap \<Rightarrow> string \<times> (string, mathInfo) jsmap \<times> nat" where
  "extractAndReplace c content d m =
     (let st = extractAndReplace_loop d \<lparr> result = content, searchPos = 0, mathMap = m, this_counter = c \<rparr>
      in (result st, mathMap st, this_counter st))"

subsection \<open>Currency Range Pre-mask and \<open>protect\<close>\<close>

definition rx_amount :: rx where \<comment> \<open>\<open>\d[\d,]*(?:\.\d+)?\<close>\<close>
  "rx_amount = seq [Set [Digit], Star (Set [Digit, Ch CHR '','']),
     Opt (seq [Lit CHR ''.'', Plus (Set [Digit])])]"

definition rx_currency_range :: rx where
  \<comment> \<open>\<open>/\$(\d[\d,]*(?:\.\d+)?)\s*-\s*\$(\d[\d,]*(?:\.\d+)?)/g\<close>\<close>
  "rx_currency_range = seq [Lit CHR ''$'', rx_amount, Star (Set [Space]), Lit CHR ''-'',
     Star (Set [Space]), Lit CHR ''$'', rx_amount]"

text \<open>The callback of Step 1; its state is \<open>this.currencyCounter\<close> and \<open>this.currencyMap\<close>.\<close>

definition mask_currency ::
  "string \<Rightarrow> nat \<times> (string, string) jsmap \<Rightarrow> string \<times> nat \<times> (string, string) jsmap" where
  "mask_currency match cs =
     (let placeholder = ''::CUR'' @ digits_of (fst cs) @ ''::''
      in (placeholder, fst cs + 1, map_set (snd cs) placeholder match))"

definition scan_all ::
  "delim list \<Rightarrow> string \<times> (string, mathInfo) jsmap \<times> nat \<Rightarrow> string \<times> (string, mathInfo) jsmap \<times> nat" where
  "scan_all ds start =
     foldl (\<lambda>acc d. extractAndReplace (snd (snd acc)) (fst acc) d (fst (snd acc))) start ds"

definition unmask_currency :: "(string, string) jsmap \<Rightarrow> string \<Rightarrow> string" where
  "unmask_currency cm text = foldl (\<lambda>t entry. join (split t (fst entry)) (snd entry)) text cm"

text \<open>\<open>protect(content)\<close> returns \<open>{protected, mathMap}\<close> and leaves the instance changed.
  Debug logging is not modelled.\<close>

record protectResult =
  protected :: string
  resultMap :: "(string, mathInfo) jsmap"

definition protect :: "protector \<Rightarrow> string \<Rightarrow> protectResult \<times> protector" where
  "protect p content =
     (if content = [] then (\<lparr> protected = [], resultMap = [] \<rparr>, p)
      else
        (let masked = rx_replace False rx_currency_range mask_currency content 0 (0, []);
             cm = snd (snd masked);
             scanned = scan_all (delimiters p) (fst masked, [], counter p)
         in (\<lparr> protected = unmask_currency cm (fst scanned), resultMap = fst (snd scanned) \<rparr>,
             p\<lparr> counter := snd (snd scanned), currencyCounter := fst (snd masked), currencyMap := cm \<rparr>)))"

subsection \<open>Restoration Engine\<close>

text \<open>\<open>Array.from(mathMap.keys()).sort()\<close>: the default order of \<open>sort\<close> compares strings
  code unit by code unit, a proper prefix first.\<close>

fun str_less :: "string \<Rightarrow> string \<Rightarrow> bool" where
  "str_less [] [] = False"
| "str_less [] (y # ys) = True"
| "str_less (x # xs) [] = False"
| "str_less (x # xs) (y # ys) =
     (if code x < code y then True else if code y < code x then False else str_less xs ys)"

fun insert_sorted :: "string \<Rightarrow> string list \<Rightarrow> string list" where
  "insert_sorted x [] = [x]"
| "insert_sorted x (y # ys) = (if str_less x y then x # y # ys else y # insert_sorted x ys)"

definition js_sort :: "string list \<Rightarrow> string list" where
  "js_sort xs = foldr insert_sorted xs []"

definition map_get :: "('k, 'v) jsmap \<Rightarrow> 'k \<Rightarrow> 'v option" where
  "map_get m k = map_of m k"

text \<open>The rendering backend \<open>katex.renderToString(content, {displayMode, ...})\<close>; \<open>None\<close>
  when it throws. \<open>getKaTeX()\<close> is \<open>None\<close> when no backend is loaded.\<close>

type_synonym katex = "string \<Rightarrow> bool \<Rightarrow> string option"

datatype js_error = InvalidCharacterError

definition renderMathExpression :: "katex \<Rightarrow> string \<Rightarrow> mathInfo \<Rightarrow> string" where
  "renderMathExpression katexLib orig info =
     (if innerContent info = [] then orig
      else if trim (innerContent info) = [] then orig
      else
        (case katexLib (innerContent info) (mathDisplay info) of
           None \<Rightarrow> orig
         | Some rendered \<Rightarrow>
             if mathDisplay info
             then ''<div class='' @ [CHR 0x22] @ ''katex-display-wrapper'' @ [CHR 0x22] @ ''>''
                  @ rendered @ ''</div>''
             else rendered))"

text \<open>The text a span is restored from; \<open>None\<close> is the \<open>continue\<close> of the loop, \<open>Inl\<close> the
  exception of \<open>atob\<close>.\<close>

definition span_original :: "mathInfo \<Rightarrow> (js_error + string) option" where
  "span_original info =
     (if encodedOriginal info \<noteq> [] then
        (case decodeBase64 (encodedOriginal info) of
           None \<Rightarrow> Some (Inl InvalidCharacterError)
         | Some s \<Rightarrow> Some (Inr s))
      else if original info \<noteq> [] then Some (Inr (original info))
      else None)"

fun restore_loop ::
  "bool \<Rightarrow> katex option \<Rightarrow> (string, mathInfo) jsmap \<Rightarrow> string list \<Rightarrow> string \<Rightarrow> js_error + string" where
  "restore_loop ror katexLib m [] restored = Inr restored"
| "restore_loop ror katexLib m (placeholder # rest) restored =
     (case map_get m placeholder of
        None \<Rightarrow> restore_loop ror katexLib m rest restored
      | Some info \<Rightarrow>
          (case span_original info of
             None \<Rightarrow> restore_loop ror katexLib m rest restored
           | Some (Inl e) \<Rightarrow> Inl e
           | Some (Inr orig) \<Rightarrow>
               restore_loop ror katexLib m rest
                 (join (split restored placeholder)
                    (case katexLib of
                       None \<Rightarrow> orig
                     | Some lib \<Rightarrow> if ror then renderMathExpression lib orig info else orig))))"

definition restore ::
  "protector \<Rightarrow> katex option \<Rightarrow> string \<Rightarrow> (string, mathInfo) jsmap \<Rightarrow> js_error + string" where
  "restore p katexLib content m =
     (if content = [] then Inr content
      else if m = [] then Inr content
      else restore_loop (renderOnRestore p) katexLib m (rev (js_sort (map fst m))) content)"

section \<open>Streaming Deduplication Tracker\<close>

record tracker =
  seenFormulas :: "string list"
  lastContentHash :: string
  consecutiveSkips :: nat
  lastCharWasWhitespace :: bool
  accumulatedContent :: string
  rendersAttempted :: nat
  rendersSkipped :: nat
  rendersExecuted :: nat

definition new_StreamingMathRenderer :: tracker where
  "new_StreamingMathRenderer =
     \<lparr> seenFormulas = [], lastContentHash = [], consecutiveSkips = 0,
       lastCharWasWhitespace = False, accumulatedContent = [],
       rendersAttempted = 0, rendersSkipped = 0, rendersExecuted = 0 \<rparr>"

text \<open>The delimiter list of the streaming renderer, in its own order.\<close>

definition streaming_delimiters :: "delim list" where
  "streaming_delimiters = [DoubleDollar, SingleDollar, BracketDisplay, ParenInline]"

text \<open>A \<open>Set\<close> keeps insertion order; \<open>add\<close> of a member changes nothing.\<close>

definition set_add :: "string list \<Rightarrow> string \<Rightarrow> string list" where
  "set_add xs x = (if List.member xs x then xs else xs @ [x])"

text \<open>The inner loop for the closer of a single dollar is the one of the protector without
  the paragraph check.\<close>

definition find_right_streaming :: "delim \<Rightarrow> string \<Rightarrow> nat \<Rightarrow> nat option" where
  "find_right_streaming d cleanContent leftPos =
     (if left d = ''$'' then
        find_closing_dollar cleanContent (right d) None (leftPos + length (left d))
      else indexOf cleanContent (right d) (leftPos + length (left d)))"

text \<open>One iteration of the \<open>while (true)\<close> loop of \<open>extractFormulaSignatures\<close>; the state is
  \<open>searchPos\<close> and the \<open>signatures\<close> array.\<close>

definition sig_step :: "string \<Rightarrow> delim \<Rightarrow> nat \<times> string list \<Rightarrow> (nat \<times> string list) flow" where
  "sig_step cleanContent d st =
     (case indexOf cleanContent (left d) (fst st) of
        None \<Rightarrow> Break st
      | Some leftPos \<Rightarrow>
          if left d = ''$'' \<and> isInsideBackticks cleanContent leftPos
            then Continue (leftPos + 1, snd st)
          else
            (case find_right_streaming d cleanContent leftPos of
               None \<Rightarrow> Break st
             | Some rightPos \<Rightarrow>
                 (let formula = substring cleanContent (leftPos + length (left d)) rightPos
                  in if trim formula \<noteq> [] then
                       (if left d = ''$'' \<and> looksLikeCurrency formula
                        then Continue (leftPos + 1, snd st)
                        else Continue (rightPos + length (right d),
                                       snd st @ [left d @ hashBase36 formula]))
                     else Continue (rightPos + length (right d), snd st))))"

lemma indexOf_left_bounds:
  assumes "indexOf s (left d) from = Some j"
  shows "from \<le> j" and "j < length s"
proof -
  from indexOf_bounds [OF assms] left_nonempty [of d]
  have a: "min from (length s) \<le> j" and b: "j < length s" by linarith+
  from b show "j < length s" .
  from a b show "from \<le> j" by (simp add: min_def split: if_splits)
qed

lemma find_right_streaming_ge:
  assumes "find_right_streaming d s leftPos = Some r" and "leftPos + length (left d) \<le> length s"
  shows "leftPos + length (left d) \<le> r"
  using assms
  by (auto simp: find_right_streaming_def split: if_splits
           dest: indexOf_ge find_closing_dollar_ge)

lemma sig_step_progress:
  assumes "sig_step s d st = Continue st'"
  shows "fst st < fst st' \<and> fst st < length s"
proof -
  from assms obtain leftPos where l: "indexOf s (left d) (fst st) = Some leftPos"
    by (auto simp: sig_step_def split: option.splits)
  note b = indexOf_left_bounds [OF l]
  from indexOf_bounds(2) [OF l] have lb: "leftPos + length (left d) \<le> length s" .
  from assms l consider
      (skip) "fst st' = leftPos + 1"
    | (found) rightPos where "find_right_streaming d s leftPos = Some rightPos"
        "fst st' = rightPos + length (right d)"
    by (auto simp: sig_step_def Let_def split: if_splits option.splits)
  then show ?thesis
  proof cases
    case skip
    with b show ?thesis by simp
  next
    case found
    from find_right_streaming_ge [OF found(1) lb] left_nonempty [of d] found(2) b
    show ?thesis by linarith
  qed
qed

function sig_loop :: "string \<Rightarrow> delim \<Rightarrow> nat \<times> string list \<Rightarrow> string list" where
  "sig_loop cleanContent d st =
     (case sig_step cleanContent d st of
        Break st' \<Rightarrow> snd st'
      | Continue st' \<Rightarrow> sig_loop cleanContent d st')"
  by pat_completeness auto
termination
proof (relation "measure (\<lambda>(s, d, st). length s - fst st)")
  show "wf (measure (\<lambda>(s, d, st). length s - fst st))" by simp
next
  fix s d st st'
  assume "sig_step s d st = Continue st'"
  from sig_step_progress [OF this] have "length s - fst st' < length s - fst st" by arith
  then show "((s, d, st'), (s, d, st)) \<in> measure (\<lambda>(s, d, st). length s - fst st)" by simp
qed

declare sig_loop.simps [simp del]

definition extractFormulaSignatures :: "string \<Rightarrow> string list" where
  "extractFormulaSignatures content =
     (let cleanContent =
            fst (rx_replace False rx_currency_range (\<lambda>m u. (''___CURRENCY_RANGE___'', u)) content 0 ())
      in foldl (\<lambda>signatures d. sig_loop cleanContent d (0, signatures)) [] streaming_delimiters)"

text \<open>
  The in-place rendering backend \<open>renderMathInElement(target, options)\<close> mutates the target
  element and may throw. The element is abstract; \<open>katexCount\<close> is
  \<open>target.querySelectorAll('.katex').length\<close>. \<open>getRenderMathInElement()\<close> is \<open>None\<close> when the
  backend is absent.
\<close>

datatype 'e outcome = Returned 'e | Threw 'e

record 'e dom_env =
  renderMathInElement :: "('e \<Rightarrow> 'e outcome) option"
  katexCount :: "'e \<Rightarrow> nat"
  setInnerHTML :: "string \<Rightarrow> 'e \<Rightarrow> 'e"

definition renderMath :: "'e dom_env \<Rightarrow> 'e \<Rightarrow> bool \<times> 'e" where
  "renderMath env targetElement =
     (case renderMathInElement env of
        None \<Rightarrow> (False, targetElement)
      | Some renderFn \<Rightarrow>
          (let beforeCount = katexCount env targetElement
           in case renderFn targetElement of
                Threw t \<Rightarrow> (False, t)
              | Returned t \<Rightarrow> (beforeCount < katexCount env t, t)))"

definition rx_trailing_space :: rx where \<comment> \<open>\<open>/\s$/\<close>\<close>
  "rx_trailing_space = seq [Set [Space], Eol]"

text \<open>\<open>processChunk(content, targetElement)\<close>: the returned flag, the tracker and the target
  element afterwards.\<close>

definition processChunk :: "'e dom_env \<Rightarrow> tracker \<Rightarrow> string \<Rightarrow> 'e \<Rightarrow> bool \<times> tracker \<times> 'e" where
  "processChunk env t content targetElement =
     (let t1 = t\<lparr> rendersAttempted := rendersAttempted t + 1,
                 accumulatedContent := accumulatedContent t @ content,
                 lastCharWasWhitespace := rx_test False rx_trailing_space content \<rparr>;
          currentFormulas = extractFormulaSignatures content;
          newFormulas = filter (\<lambda>sig. \<not> List.member (seenFormulas t1) sig) currentFormulas
      in if length newFormulas = 0 then
           (False, t1\<lparr> rendersSkipped := rendersSkipped t1 + 1,
                       consecutiveSkips := consecutiveSkips t1 + 1 \<rparr>, targetElement)
         else
           (case renderMath env targetElement of
              (rendered, target') \<Rightarrow>
                if rendered then
                  (True, t1\<lparr> seenFormulas := foldl set_add (seenFormulas t1) newFormulas,
                             consecutiveSkips := 0,
                             rendersExecuted := rendersExecuted t1 + 1 \<rparr>, target')
                else (False, t1, target')))"

subsection \<open>The stream renderer that feeds the tracker\<close>

text \<open>
  \<open>StreamRenderer.appendContent(chunk)\<close> appends the chunk to its content, lets the
  incremental renderer replace the target's markup by the rendering of the whole content
  (\<open>setInnerHTML\<close>, which stands for \<open>renderMarkdown\<close> and the cursor element), and then
  calls \<open>processChunk\<close> with the whole content so far.
\<close>

record 'e streamRenderer =
  targetElement :: 'e
  content :: string
  lastContent :: string
  renderCount :: nat
  streamingMathRenderer :: tracker

definition new_StreamRenderer :: "'e \<Rightarrow> 'e streamRenderer" where
  "new_StreamRenderer target =
     \<lparr> targetElement = target, content = [], lastContent = [], renderCount = 0,
       streamingMathRenderer = new_StreamingMathRenderer \<rparr>"

definition appendNewContent :: "'e dom_env \<Rightarrow> 'e streamRenderer \<Rightarrow> string \<Rightarrow> bool \<times> 'e streamRenderer" where
  "appendNewContent env sr fullContent =
     (if fullContent = [] then (False, sr)
      else if fullContent = lastContent sr then (False, sr)
      else (True, sr\<lparr> renderCount := renderCount sr + 1,
                      targetElement := setInnerHTML env fullContent (targetElement sr),
                      lastContent := fullContent \<rparr>))"

definition appendContent :: "'e dom_env \<Rightarrow> 'e streamRenderer \<Rightarrow> string \<Rightarrow> bool \<times> 'e streamRenderer" where
  "appendContent env sr chunk =
     (if chunk = [] then (False, sr)
      else
        (let sr1 = sr\<lparr> content := content sr @ chunk \<rparr>
         in case appendNewContent env sr1 (content sr1) of
              (updated, sr2) \<Rightarrow>
                if updated then
                  (case processChunk env (streamingMathRenderer sr2) (content sr2) (targetElement sr2) of
                     (rendered, t, target') \<Rightarrow>
                       (updated, sr2\<lparr> streamingMathRenderer := t, targetElement := target' \<rparr>))
                else (updated, sr2)))"

text \<open>Feeding a list of chunks in order.\<close>

definition stream_chunks :: "'e dom_env \<Rightarrow> 'e streamRenderer \<Rightarrow> string list \<Rightarrow> 'e streamRenderer" where
  "stream_chunks env sr chunks = foldl (\<lambda>r chunk. snd (appendContent env r chunk)) sr chunks"

section \<open>Reading a result in document order\<close>

text \<open>The entries of a span table sorted by the position of their token in the protected
  text; this is how the properties below speak about the first or the second span of a
  document.\<close>

definition token_position :: "string \<Rightarrow> string \<Rightarrow> nat" where
  "token_position text token = (case indexOf text token 0 of Some i \<Rightarrow> i | None \<Rightarrow> length text)"

definition spans_in_document_order :: "protectResult \<Rightarrow> (string \<times> mathInfo) list" where
  "spans_in_document_order r = sort_key (\<lambda>entry. token_position (protected r) (fst entry)) (resultMap r)"

section \<open>Bounded runs and sample environments\<close>

text \<open>The scan loop with a bound on its iterations: \<open>None\<close> when the bound is used up before
  the loop ends.\<close>

fun extractAndReplace_fuel :: "nat \<Rightarrow> delim \<Rightarrow> scan \<Rightarrow> scan option" where
  "extractAndReplace_fuel 0 d st = None"
| "extractAndReplace_fuel (Suc n) d st =
     (if searchPos st < length (result st) then
        (case scan_step d st of
           Break st' \<Rightarrow> Some st'
         | Continue st' \<Rightarrow> extractAndReplace_fuel n d st')
      else Some st)"

lemma fuel_suffices:
  "length (result st) - searchPos st < n \<Longrightarrow>
   extractAndReplace_fuel n d st = Some (extractAndReplace_loop d st)"
proof (induction n arbitrary: st)
  case 0
  then show ?case by simp
next
  case (Suc n)
  show ?case
  proof (cases "searchPos st < length (result st)")
    case False
    then show ?thesis by (simp add: extractAndReplace_loop.simps [of d st])
  next
    case True
    show ?thesis
    proof (cases "scan_step d st")
      case (Break st')
      with True show ?thesis by (simp add: extractAndReplace_loop.simps [of d st])
    next
      case (Continue st')
      from scan_step_progress [OF True Continue] Suc.prems
      have "length (result st') - searchPos st' < n" by simp
      from Suc.IH [OF this] True Continue show ?thesis
        by (simp add: extractAndReplace_loop.simps [of d st])
    qed
  qed
qed

text \<open>The same bound threaded through \<open>extractAndReplace\<close>, the loop over the delimiters
  and \<open>protect\<close>.\<close>

definition extractAndReplace_bounded ::
  "nat \<Rightarrow> nat \<Rightarrow> string \<Rightarrow> delim \<Rightarrow> (string, mathInfo) jsmap
     \<Rightarrow> (string \<times> (string, mathInfo) jsmap \<times> nat) option" where
  "extractAndReplace_bounded n c txt d m =
     map_option (\<lambda>st. (result st, mathMap st, this_counter st))
       (extractAndReplace_fuel n d \<lparr> result = txt, searchPos = 0, mathMap = m, this_counter = c \<rparr>)"

fun scan_all_bounded ::
  "nat \<Rightarrow> delim list \<Rightarrow> string \<times> (string, mathInfo) jsmap \<times> nat
     \<Rightarrow> (string \<times> (string, mathInfo) jsmap \<times> nat) option" where
  "scan_all_bounded n [] acc = Some acc"
| "scan_all_bounded n (d # ds) acc =
     (case extractAndReplace_bounded n (snd (snd acc)) (fst acc) d (fst (snd acc)) of
        None \<Rightarrow> None
      | Some acc' \<Rightarrow> scan_all_bounded n ds acc')"

definition protect_bounded :: "nat \<Rightarrow> protector \<Rightarrow> string \<Rightarrow> (protectResult \<times> protector) option" where
  "protect_bounded n p txt =
     (if txt = [] then Some (\<lparr> protected = [], resultMap = [] \<rparr>, p)
      else
        (let masked = rx_replace False rx_currency_range mask_currency txt 0 (0, []);
             cm = snd (snd masked)
         in case scan_all_bounded n (delimiters p) (fst masked, [], counter p) of
              None \<Rightarrow> None
            | Some scanned \<Rightarrow>
                Some (\<lparr> protected = unmask_currency cm (fst scanned), resultMap = fst (snd scanned) \<rparr>,
                      p\<lparr> counter := snd (snd scanned), currencyCounter := fst (snd masked),
                         currencyMap := cm \<rparr>)))"

lemma extractAndReplace_bounded_suffices:
  "length txt < n \<Longrightarrow> extractAndReplace_bounded n c txt d m = Some (extractAndReplace c txt d m)"
  using fuel_suffices [of "\<lparr> result = txt, searchPos = 0, mathMap = m, this_counter = c \<rparr>" n d]
  by (simp add: extractAndReplace_bounded_def extractAndReplace_def Let_def)

lemma scan_all_bounded_suffices:
  "\<exists>N. \<forall>n\<ge>N. scan_all_bounded n ds acc = Some (scan_all ds acc)"
proof (induction ds arbitrary: acc)
  case Nil
  show ?case by (simp add: scan_all_def)
next
  case (Cons d ds)
  let ?acc' = "extractAndReplace (snd (snd acc)) (fst acc) d (fst (snd acc))"
  from Cons [of ?acc'] obtain N where
    N: "\<And>n. N \<le> n \<Longrightarrow> scan_all_bounded n ds ?acc' = Some (scan_all ds ?acc')" by blast
  have "scan_all_bounded n (d # ds) acc = Some (scan_all (d # ds) acc)"
    if "max N (Suc (length (fst acc))) \<le> n" for n
  proof -
    from that have "length (fst acc) < n" and "N \<le> n" by simp_all
    from extractAndReplace_bounded_suffices [OF this(1)] N [OF this(2)]
    show ?thesis by (simp add: scan_all_def)
  qed
  then show ?case by blast
qed

lemma protect_bounded_suffices: "\<exists>n. protect_bounded n p txt = Some (protect p txt)"
proof (cases "txt = []")
  case True
  then show ?thesis by (simp add: protect_bounded_def protect_def)
next
  case False
  let ?masked = "rx_replace False rx_currency_range mask_currency txt 0 (0, [])"
  from scan_all_bounded_suffices [of "delimiters p" "(fst ?masked, [], counter p)"]
  obtain N where "scan_all_bounded N (delimiters p) (fst ?masked, [], counter p)
      = Some (scan_all (delimiters p) (fst ?masked, [], counter p))"
    by blast
  with False have "protect_bounded N p txt = Some (protect p txt)"
    by (simp add: protect_bounded_def protect_def Let_def)
  then show ?thesis ..
qed

text \<open>Sample DOM environments over elements that are just the number of rendered formulas
  they hold; replacing the markup clears them. In the first the backend is absent; in the
  second it renders one more formula on every call; the third is idempotent: it renders an
  element that holds no rendered formula and leaves a rendered element as it is.\<close>

definition no_backend :: "nat dom_env" where
  "no_backend = \<lparr> renderMathInElement = None, katexCount = (\<lambda>e. e), setInnerHTML = (\<lambda>html e. 0) \<rparr>"

definition counting_backend :: "nat dom_env" where
  "counting_backend =
     \<lparr> renderMathInElement = Some (\<lambda>e. Returned (Suc e)), katexCount = (\<lambda>e. e),
       setInnerHTML = (\<lambda>html e. 0) \<rparr>"

definition idempotent_backend :: "nat dom_env" where
  "idempotent_backend =
     \<lparr> renderMathInElement = Some (\<lambda>e. Returned (max e 1)), katexCount = (\<lambda>e. e),
       setInnerHTML = (\<lambda>html e. 0) \<rparr>"

text \<open>The text \<open>$a$ then $$b$$ then $c$ then \[d\] then $e$ then \(f\)\<close>.\<close>

definition six_spans_input :: string where
  "six_spans_input =
     ''$a$ then $$b$$ then $c$ then '' @ [bsl, CHR ''['', CHR ''d'', bsl, CHR '']'']
     @ '' then $e$ then '' @ [bsl, CHR ''('', CHR ''f'', bsl, CHR '')'']"

text \<open>Nine display spans, then a tenth between two prices.\<close>

definition eleven_spans_input :: string where
  "eleven_spans_input = ''$$a$$ $$b$$ $$c$$ $$d$$ $$e$$ $$f$$ $$g$$ $$h$$ $$i$$ $5 for $$x$$ and $6''"

text \<open>A scan state before and after one iteration, and a tracker that has already rendered
  the formula \<open>x^2\<close>.\<close>

definition sample_scan :: scan where
  "sample_scan = \<lparr> result = ''a $x^2$ b'', searchPos = 0, mathMap = [], this_counter = 0 \<rparr>"

definition sample_scan_next :: scan where
  "sample_scan_next =
     \<lparr> result = ''a ::MATH_0:: b'', searchPos = 12,
       mathMap = [(''::MATH_0::'',
         \<lparr> original = ''$x^2$'', encodedOriginal = ''JHheMiQ='', mathDisplay = False,
           innerContent = ''x^2'', delimiter = SingleDollar, isPending = False \<rparr>)],
       this_counter = 1 \<rparr>"

definition tracker_seen_x2 :: tracker where
  "tracker_seen_x2 =
     \<lparr> seenFormulas = [''$2j9o''], lastContentHash = [], consecutiveSkips = 0,
       lastCharWasWhitespace = False, accumulatedContent = ''$x^2$'',
       rendersAttempted = 1, rendersSkipped = 0, rendersExecuted = 1 \<rparr>"

text \<open>Feeding chunks to \<open>processChunk\<close> itself, and the cumulative contents that
  \<open>appendContent\<close> hands to the tracker: one per non-empty chunk.\<close>

definition process_chunks :: "'e dom_env \<Rightarrow> tracker \<times> 'e \<Rightarrow> string list \<Rightarrow> tracker \<times> 'e" where
  "process_chunks env start chunks =
     foldl (\<lambda>st chunk. snd (processChunk env (fst st) chunk (snd st))) start chunks"

fun cumulative :: "string \<Rightarrow> string list \<Rightarrow> string list" where
  "cumulative acc [] = []"
| "cumulative acc (c # cs) = (if c = [] then cumulative acc cs else (acc @ c) # cumulative (acc @ c) cs)"

text \<open>The token of a span: its kind and its number. \<open>tokens_from c kinds\<close> are the tokens
  numbered \<open>c, c + 1, ...\<close> of the given kinds (pending or complete), and \<open>scan_inv\<close> says
  that a span table holds exactly these, in insertion order, with the counter past the
  last of them.\<close>

definition token :: "bool \<Rightarrow> nat \<Rightarrow> string" where
  "token pending n = (if pending then ''::PENDINGMATH'' else ''::MATH_'') @ digits_of n @ ''::''"

fun tokens_from :: "nat \<Rightarrow> bool list \<Rightarrow> string list" where
  "tokens_from c [] = []"
| "tokens_from c (k # ks) = token k c # tokens_from (Suc c) ks"

definition decimal_value :: "string \<Rightarrow> nat" where
  "decimal_value s = foldl (\<lambda>a c. 10 * a + (code c - 48)) 0 s"

definition scan_inv :: "nat \<Rightarrow> (string, mathInfo) jsmap \<Rightarrow> nat \<Rightarrow> bool" where
  "scan_inv c0 m c = (map fst m = tokens_from c0 (map (\<lambda>e. isPending (snd e)) m) \<and> c = c0 + length m)"

text \<open>
  Texts made of well-formed, non-overlapping delimiter pairs and ordinary prose: a list of
  segments, each either prose or a span of one delimiter kind around a body, where prose
  and bodies contain no dollar sign, no backslash and no reserved token, and a body is not
  blank.
\<close>

datatype segment = Prose string | Span delim string

fun segment_text :: "segment \<Rightarrow> string" where
  "segment_text (Prose s) = s"
| "segment_text (Span d body) = left d @ body @ right d"

definition text_of :: "segment list \<Rightarrow> string" where
  "text_of segs = concat (map segment_text segs)"

definition rx_reserved_token :: rx where
  \<comment> \<open>\<open>::MATH_<n>::\<close>, \<open>::PENDINGMATH<n>::\<close> or \<open>::CUR<n>::\<close>\<close>
  "rx_reserved_token =
     alts [seq [Str ''::MATH_'', Plus (Set [Digit]), Str ''::''],
           seq [Str ''::PENDINGMATH'', Plus (Set [Digit]), Str ''::''],
           rx_cur_token]"

definition plain_text :: "string \<Rightarrow> bool" where
  "plain_text s =
     (\<not> includes_str s ''$'' \<and> \<not> includes_str s [bsl] \<and> \<not> rx_test False rx_reserved_token s)"

fun well_formed_segment :: "segment \<Rightarrow> bool" where
  "well_formed_segment (Prose s) = plain_text s"
| "well_formed_segment (Span d body) = (plain_text body \<and> trim body \<noteq> [])"

definition well_formed_text :: "segment list \<Rightarrow> bool" where
  "well_formed_text segs = list_all well_formed_segment segs"

section \<open>Properties\<close>

subsection \<open>Worked inputs of the protector\<close>

text \<open>
  C4. On the input \<open>The equation $x^2$ costs $50\<close>, \<open>protect\<close> on a fresh instance returns a
  span table with exactly one entry, whose inner content is \<open>x^2\<close> and whose original text is
  \<open>$x^2$\<close>; it is a complete, inline span. The trailing \<open>$50\<close> stays in the protected text
  as it is and yields no span, complete or pending.
\<close>

theorem protect_equation_and_price:
  "fst (protect (new_MathProtector ror dbg) ''The equation $x^2$ costs $50'') =
     \<lparr> protected = ''The equation ::MATH_0:: costs $50'',
       resultMap =
         [(''::MATH_0::'',
           \<lparr> original = ''$x^2$'', encodedOriginal = ''JHheMiQ='', mathDisplay = False,
             innerContent = ''x^2'', delimiter = SingleDollar, isPending = False \<rparr>)] \<rparr>"
  by code_simp

text \<open>
  C5. On the input \<open>$a$ then $$b$$ then $c$ then \[d\] then $e$ then \(f\)\<close>, \<open>protect\<close> on a
  fresh instance returns exactly six spans. Read in document order, the second (\<open>$$b$$\<close>) and
  the fourth (\<open>\[d\]\<close>) are display-mode and the other four are inline. The delimiters are
  scanned in ascending priority (double dollar, bracket, paren, single dollar), which shows
  in the token numbers: the display and paren spans are numbered before the single-dollar
  spans.
\<close>

theorem protect_six_spans:
  "delimiters (new_MathProtector ror dbg) = [DoubleDollar, BracketDisplay, ParenInline, SingleDollar]
   \<and> protected (fst (protect (new_MathProtector ror dbg) six_spans_input)) =
       ''::MATH_3:: then ::MATH_0:: then ::MATH_4:: then ::MATH_1:: then ::MATH_5:: then ::MATH_2::''
   \<and> length (resultMap (fst (protect (new_MathProtector ror dbg) six_spans_input))) = 6
   \<and> map (\<lambda>e. (fst e, original (snd e), mathDisplay (snd e), isPending (snd e)))
         (spans_in_document_order (fst (protect (new_MathProtector ror dbg) six_spans_input))) =
       [(''::MATH_3::'', ''$a$'', False, False),
        (''::MATH_0::'', ''$$b$$'', True, False),
        (''::MATH_4::'', ''$c$'', False, False),
        (''::MATH_1::'', [bsl, CHR ''['', CHR ''d'', bsl, CHR '']''], True, False),
        (''::MATH_5::'', ''$e$'', False, False),
        (''::MATH_2::'', [bsl, CHR ''('', CHR ''f'', bsl, CHR '')''], False, False)]"
  by code_simp

text \<open>
  C6. On the input \<open>Range: $50-$100\<close>, \<open>protect\<close> returns a span table with no entry, and
  \<open>restore\<close> of its result gives the input back unchanged, whatever the rendering setting
  and backend. The range was masked before the scan (the instance keeps the mask
  \<open>::CUR0::\<close> for \<open>$50-$100\<close>) and put back afterwards.
\<close>

theorem protect_restore_currency_range:
  "fst (protect (new_MathProtector ror dbg) ''Range: $50-$100'') =
     \<lparr> protected = ''Range: $50-$100'', resultMap = [] \<rparr>
   \<and> currencyMap (snd (protect (new_MathProtector ror dbg) ''Range: $50-$100'')) =
       [(''::CUR0::'', ''$50-$100'')]
   \<and> restore (new_MathProtector ror dbg) katexLib
         (protected (fst (protect (new_MathProtector ror dbg) ''Range: $50-$100'')))
         (resultMap (fst (protect (new_MathProtector ror dbg) ''Range: $50-$100''))) =
       Inr ''Range: $50-$100''"
  by code_simp

subsection \<open>Termination of the scan\<close>

text \<open>
  C10. \<open>protect\<close> returns on every text. In an iteration of the scan loop of
  \<open>extractAndReplace\<close> that does not end the loop, the cursor \<open>searchPos\<close> strictly advances
  and the unscanned suffix \<open>result.length - searchPos\<close> strictly shrinks, also when a
  placeholder longer than the span is spliced in; so the loop ends within
  \<open>result.length - searchPos + 1\<close> iterations, with the result of
  \<open>extractAndReplace_loop\<close>, and some bound on the iterations of every scan lets the whole of
  \<open>protect\<close> run to its result.
\<close>

theorem extractAndReplace_terminates:
  "(searchPos st < length (result st) \<and> scan_step d st = Continue st' \<longrightarrow>
      searchPos st < searchPos st' \<and>
      length (result st') - searchPos st' < length (result st) - searchPos st)
   \<and> extractAndReplace_fuel (Suc (length (result st) - searchPos st)) d st =
       Some (extractAndReplace_loop d st)
   \<and> (\<exists>n. protect_bounded n p txt = Some (protect p txt))"
  using scan_step_progress [of st d st']
    fuel_suffices [of st "Suc (length (result st) - searchPos st)" d]
    protect_bounded_suffices [of p "txt"]
  by blast

theorem extractAndReplace_terminates_witness:
  "(searchPos sample_scan < length (result sample_scan)
      \<and> scan_step SingleDollar sample_scan = Continue sample_scan_next)
   \<and> (searchPos sample_scan < searchPos sample_scan_next \<and>
      length (result sample_scan_next) - searchPos sample_scan_next
        < length (result sample_scan) - searchPos sample_scan)
   \<and> extractAndReplace_fuel (Suc (length (result sample_scan) - searchPos sample_scan))
         SingleDollar sample_scan =
       Some (extractAndReplace_loop SingleDollar sample_scan)
   \<and> (\<exists>n. protect_bounded n (new_MathProtector True False) ''a $x^2$ b''
            = Some (protect (new_MathProtector True False) ''a $x^2$ b''))"
proof -
  have h: "searchPos sample_scan < length (result sample_scan)
      \<and> scan_step SingleDollar sample_scan = Continue sample_scan_next"
    by code_simp
  from extractAndReplace_terminates [of sample_scan SingleDollar sample_scan_next
      "new_MathProtector True False" "''a $x^2$ b''"] h
  show ?thesis by blast
qed

subsection \<open>The streaming tracker\<close>

text \<open>
  C7. When every formula signature extracted from a chunk is already in the seen-set,
  \<open>processChunk\<close> returns false, adds one to \<open>rendersSkipped\<close> (and to \<open>rendersAttempted\<close> and
  \<open>consecutiveSkips\<close>), appends the chunk to the buffer, and leaves \<open>rendersExecuted\<close>, the
  seen-set and the target element as they were, whatever the rendering backend is: the
  backend is not called.
\<close>

theorem processChunk_skips_seen:
  assumes "list_all (List.member (seenFormulas t)) (extractFormulaSignatures chunk)"
  shows "processChunk env t chunk target =
           (False,
            t\<lparr> rendersAttempted := rendersAttempted t + 1,
               accumulatedContent := accumulatedContent t @ chunk,
               lastCharWasWhitespace := rx_test False rx_trailing_space chunk,
               rendersSkipped := rendersSkipped t + 1,
               consecutiveSkips := consecutiveSkips t + 1 \<rparr>,
            target)
         \<and> rendersExecuted (fst (snd (processChunk env t chunk target))) = rendersExecuted t
         \<and> seenFormulas (fst (snd (processChunk env t chunk target))) = seenFormulas t"
proof -
  from assms have "filter (\<lambda>sig. \<not> List.member (seenFormulas t) sig) (extractFormulaSignatures chunk) = []"
    by (auto simp: list_all_iff filter_empty_conv)
  then show ?thesis by (simp add: processChunk_def Let_def)
qed

theorem processChunk_skips_seen_witness:
  "list_all (List.member (seenFormulas tracker_seen_x2)) (extractFormulaSignatures ''Again $x^2$ '')
   \<and> processChunk counting_backend tracker_seen_x2 ''Again $x^2$ '' 1 =
           (False,
            tracker_seen_x2\<lparr> rendersAttempted := rendersAttempted tracker_seen_x2 + 1,
               accumulatedContent := accumulatedContent tracker_seen_x2 @ ''Again $x^2$ '',
               lastCharWasWhitespace := rx_test False rx_trailing_space ''Again $x^2$ '',
               rendersSkipped := rendersSkipped tracker_seen_x2 + 1,
               consecutiveSkips := consecutiveSkips tracker_seen_x2 + 1 \<rparr>,
            1)"
proof -
  have h: "list_all (List.member (seenFormulas tracker_seen_x2)) (extractFormulaSignatures ''Again $x^2$ '')"
    by code_simp
  from processChunk_skips_seen [OF h, of counting_backend 1] h show ?thesis by blast
qed

text \<open>
  C9 (as stated). With the backend absent \<open>processChunk\<close> is not a no-op on the tracker: on a
  new tracker and the chunk \<open>$x^2$\<close> it counts the attempt and appends the chunk to the
  buffer, and on a chunk without formulas it also counts a skip.
\<close>

theorem absent_backend_still_counts:
  "rendersAttempted new_StreamingMathRenderer = 0
   \<and> accumulatedContent new_StreamingMathRenderer = []
   \<and> rendersAttempted (fst (snd (processChunk no_backend new_StreamingMathRenderer ''$x^2$'' 0))) = 1
   \<and> accumulatedContent (fst (snd (processChunk no_backend new_StreamingMathRenderer ''$x^2$'' 0))) = ''$x^2$''
   \<and> rendersSkipped (fst (snd (processChunk no_backend new_StreamingMathRenderer ''plain text'' 0))) = 1"
  by code_simp

text \<open>
  C9 (amended). With the in-place backend absent, \<open>processChunk\<close> returns false and renders
  nothing: the target element, the seen-set and \<open>rendersExecuted\<close> are unchanged. The call
  is still counted in \<open>rendersAttempted\<close>, the chunk is appended to the buffer, and a chunk
  without an unseen signature is counted in \<open>rendersSkipped\<close> and \<open>consecutiveSkips\<close>.
\<close>

theorem processChunk_absent_backend:
  assumes "renderMathInElement env = None"
  shows "fst (processChunk env t chunk target) = False
         \<and> snd (snd (processChunk env t chunk target)) = target
         \<and> seenFormulas (fst (snd (processChunk env t chunk target))) = seenFormulas t
         \<and> rendersExecuted (fst (snd (processChunk env t chunk target))) = rendersExecuted t
         \<and> rendersAttempted (fst (snd (processChunk env t chunk target))) = rendersAttempted t + 1
         \<and> accumulatedContent (fst (snd (processChunk env t chunk target))) = accumulatedContent t @ chunk
         \<and> lastCharWasWhitespace (fst (snd (processChunk env t chunk target))) =
             rx_test False rx_trailing_space chunk
         \<and> lastContentHash (fst (snd (processChunk env t chunk target))) = lastContentHash t
         \<and> rendersSkipped (fst (snd (processChunk env t chunk target))) =
             (if list_all (List.member (seenFormulas t)) (extractFormulaSignatures chunk)
              then rendersSkipped t + 1 else rendersSkipped t)
         \<and> consecutiveSkips (fst (snd (processChunk env t chunk target))) =
             (if list_all (List.member (seenFormulas t)) (extractFormulaSignatures chunk)
              then consecutiveSkips t + 1 else consecutiveSkips t)"
proof (cases "list_all (List.member (seenFormulas t)) (extractFormulaSignatures chunk)")
  case True
  then have "filter (\<lambda>sig. \<not> List.member (seenFormulas t) sig) (extractFormulaSignatures chunk) = []"
    by (auto simp: list_all_iff filter_empty_conv)
  with True show ?thesis by (simp add: processChunk_def Let_def)
next
  case False
  then have "filter (\<lambda>sig. \<not> List.member (seenFormulas t) sig) (extractFormulaSignatures chunk) \<noteq> []"
    by (auto simp: list_all_iff filter_empty_conv)
  with False assms show ?thesis by (simp add: processChunk_def Let_def renderMath_def)
qed

theorem processChunk_absent_backend_witness:
  "renderMathInElement no_backend = None
   \<and> fst (processChunk no_backend new_StreamingMathRenderer ''$x^2$'' 0) = False
   \<and> rendersAttempted (fst (snd (processChunk no_backend new_StreamingMathRenderer ''$x^2$'' 0))) =
       rendersAttempted new_StreamingMathRenderer + 1"
proof -
  have h: "renderMathInElement no_backend = None" by (simp add: no_backend_def)
  from processChunk_absent_backend [OF h, of new_StreamingMathRenderer "''$x^2$''" 0] h
  show ?thesis by blast
qed

subsection \<open>Chunk boundaries\<close>

lemma set_foldl_set_add: "set (foldl set_add xs ys) = set xs \<union> set ys"
  by (induction ys arbitrary: xs) (auto simp: set_add_def)

lemma renderMath_fresh:
  assumes "renderMathInElement env = Some f"
    and "\<And>html e. extractFormulaSignatures html \<noteq> [] \<Longrightarrow>
           \<exists>e'. f (setInnerHTML env html e) = Returned e'
                \<and> katexCount env (setInnerHTML env html e) < katexCount env e'"
    and "extractFormulaSignatures html \<noteq> []"
  shows "fst (renderMath env (setInnerHTML env html e)) = True"
proof -
  from assms(2) [OF assms(3), of e] obtain e' where
    "f (setInnerHTML env html e) = Returned e'"
    "katexCount env (setInnerHTML env html e) < katexCount env e'"
    by blast
  with assms(1) show ?thesis by (simp add: renderMath_def Let_def)
qed

lemma processChunk_seen:
  assumes "renderMathInElement env = Some f"
    and "\<And>html e. extractFormulaSignatures html \<noteq> [] \<Longrightarrow>
           \<exists>e'. f (setInnerHTML env html e) = Returned e'
                \<and> katexCount env (setInnerHTML env html e) < katexCount env e'"
  shows "set (seenFormulas (fst (snd (processChunk env t c (setInnerHTML env c e))))) =
         set (seenFormulas t) \<union> set (extractFormulaSignatures c)"
proof (cases "filter (\<lambda>sig. \<not> List.member (seenFormulas t) sig) (extractFormulaSignatures c) = []")
  case True
  then have "set (extractFormulaSignatures c) \<subseteq> set (seenFormulas t)"
    by (auto simp: filter_empty_conv)
  with True show ?thesis by (auto simp: processChunk_def Let_def)
next
  case False
  then have "extractFormulaSignatures c \<noteq> []" by auto
  from renderMath_fresh [OF assms this, of e]
  obtain target' where r: "renderMath env (setInnerHTML env c e) = (True, target')"
    by (cases "renderMath env (setInnerHTML env c e)") auto
  from False r show ?thesis
    by (auto simp: processChunk_def Let_def set_foldl_set_add)
qed

lemma appendContent_seen:
  assumes "renderMathInElement env = Some f"
    and "\<And>html e. extractFormulaSignatures html \<noteq> [] \<Longrightarrow>
           \<exists>e'. f (setInnerHTML env html e) = Returned e'
                \<and> katexCount env (setInnerHTML env html e) < katexCount env e'"
    and "lastContent sr = content sr"
  shows "content (snd (appendContent env sr c)) = content sr @ c
       \<and> lastContent (snd (appendContent env sr c)) = content sr @ c
       \<and> set (seenFormulas (streamingMathRenderer (snd (appendContent env sr c)))) =
           (if c = [] then set (seenFormulas (streamingMathRenderer sr))
            else set (seenFormulas (streamingMathRenderer sr)) \<union> set (extractFormulaSignatures (content sr @ c)))"
proof (cases "c = []")
  case True
  with assms(3) show ?thesis by (simp add: appendContent_def)
next
  case False
  let ?sr2 = "sr\<lparr> content := content sr @ c, renderCount := renderCount sr + 1,
                  targetElement := setInnerHTML env (content sr @ c) (targetElement sr),
                  lastContent := content sr @ c \<rparr>"
  from False assms(3) have a: "appendNewContent env (sr\<lparr> content := content sr @ c \<rparr>) (content sr @ c) = (True, ?sr2)"
    by (simp add: appendNewContent_def)
  obtain rendered t target' where p: "processChunk env (streamingMathRenderer sr) (content sr @ c)
      (setInnerHTML env (content sr @ c) (targetElement sr)) = (rendered, t, target')"
    by (metis prod_cases3)
  from processChunk_seen [OF assms(1,2), of "streamingMathRenderer sr" "content sr @ c" "targetElement sr"] p
  have s: "set (seenFormulas t) = set (seenFormulas (streamingMathRenderer sr)) \<union> set (extractFormulaSignatures (content sr @ c))"
    by simp
  from False a p have "snd (appendContent env sr c) = ?sr2\<lparr> streamingMathRenderer := t, targetElement := target' \<rparr>"
    by (simp add: appendContent_def Let_def)
  with False s show ?thesis by simp
qed

lemma stream_chunks_seen:
  assumes "renderMathInElement env = Some f"
    and "\<And>html e. extractFormulaSignatures html \<noteq> [] \<Longrightarrow>
           \<exists>e'. f (setInnerHTML env html e) = Returned e'
                \<and> katexCount env (setInnerHTML env html e) < katexCount env e'"
  shows "lastContent sr = content sr \<Longrightarrow>
         set (seenFormulas (streamingMathRenderer (stream_chunks env sr chunks))) =
         set (seenFormulas (streamingMathRenderer sr))
           \<union> (\<Union>c \<in> set (cumulative (content sr) chunks). set (extractFormulaSignatures c))"
proof (induction chunks arbitrary: sr)
  case Nil
  then show ?case by (simp add: stream_chunks_def)
next
  case (Cons c cs)
  let ?sr' = "snd (appendContent env sr c)"
  note a = appendContent_seen [OF assms Cons.prems, of c]
  from a have inv: "lastContent ?sr' = content ?sr'" by simp
  have "stream_chunks env sr (c # cs) = stream_chunks env ?sr' cs"
    by (simp add: stream_chunks_def)
  with Cons.IH [OF inv] a show ?case by (auto split: if_splits)
qed

lemma whole_in_cumulative: "concat cs \<noteq> [] \<Longrightarrow> acc @ concat cs \<in> set (cumulative acc cs)"
proof (induction cs arbitrary: acc)
  case Nil
  then show ?case by simp
next
  case (Cons c cs)
  show ?case
  proof (cases "c = []")
    case True
    with Cons show ?thesis by simp
  next
    case False
    show ?thesis
    proof (cases "concat cs = []")
      case True
      with False show ?thesis by simp
    next
      case nonempty: False
      from Cons.IH [OF nonempty, of "acc @ c"] False show ?thesis by simp
    qed
  qed
qed

text \<open>
  C8 (amended). Delivered through \<open>StreamRenderer.appendContent\<close>, which replaces the target's
  markup and hands the tracker the whole content so far at every non-empty chunk, and with
  a backend that succeeds, that is, renders freshly replaced markup whenever the content
  yields a formula signature (an idempotent backend can do that), a chunked delivery to a
  new stream renderer ends with a seen-set that is the union of the signature sets of the
  cumulative contents at the chunk boundaries. It contains the seen-set of the delivery of
  the whole content as one chunk, and it can be larger.
\<close>

theorem chunked_seen_contains_whole:
  assumes "renderMathInElement env = Some f"
    and "\<And>html e. extractFormulaSignatures html \<noteq> [] \<Longrightarrow>
           \<exists>e'. f (setInnerHTML env html e) = Returned e'
                \<and> katexCount env (setInnerHTML env html e) < katexCount env e'"
  shows "set (seenFormulas (streamingMathRenderer (stream_chunks env (new_StreamRenderer target) [concat chunks])))
         \<subseteq> set (seenFormulas (streamingMathRenderer (stream_chunks env (new_StreamRenderer target) chunks)))
       \<and> set (seenFormulas (streamingMathRenderer (stream_chunks env (new_StreamRenderer target) chunks))) =
           (\<Union>c \<in> set (cumulative [] chunks). set (extractFormulaSignatures c))"
proof -
  have init: "lastContent (new_StreamRenderer target) = content (new_StreamRenderer target)"
    by (simp add: new_StreamRenderer_def)
  have c0: "content (new_StreamRenderer target) = []"
    and s0: "seenFormulas (streamingMathRenderer (new_StreamRenderer target)) = []"
    by (simp_all add: new_StreamRenderer_def new_StreamingMathRenderer_def)
  define w where "w = concat chunks"
  have whole: "set (seenFormulas (streamingMathRenderer (stream_chunks env (new_StreamRenderer target) [w]))) =
      (if w = [] then {} else set (extractFormulaSignatures w))"
    using stream_chunks_seen [OF assms init, of "[w]"] by (simp add: c0 s0)
  have parts: "set (seenFormulas (streamingMathRenderer (stream_chunks env (new_StreamRenderer target) chunks))) =
      (\<Union>c \<in> set (cumulative [] chunks). set (extractFormulaSignatures c))"
    using stream_chunks_seen [OF assms init, of chunks] by (simp add: c0 s0)
  have "w \<noteq> [] \<Longrightarrow> w \<in> set (cumulative [] chunks)"
    using whole_in_cumulative [of chunks "[]"] by (simp add: w_def)
  then have "(if w = [] then {} else set (extractFormulaSignatures w))
      \<subseteq> (\<Union>c \<in> set (cumulative [] chunks). set (extractFormulaSignatures c))"
    by auto
  with whole parts show ?thesis unfolding w_def by simp
qed

theorem chunked_seen_contains_whole_witness:
  "renderMathInElement idempotent_backend = Some (\<lambda>e. Returned (max e 1))
   \<and> (\<forall>e::nat. max (max e 1) 1 = max e 1)
   \<and> (\<forall>html e. \<exists>e'. Returned (max (setInnerHTML idempotent_backend html e) 1) = Returned e'
         \<and> katexCount idempotent_backend (setInnerHTML idempotent_backend html e)
             < katexCount idempotent_backend e')
   \<and> set (seenFormulas (streamingMathRenderer
         (stream_chunks idempotent_backend (new_StreamRenderer 0) [concat [''$a$ and $'', ''b$'']])))
       \<subseteq> set (seenFormulas (streamingMathRenderer
         (stream_chunks idempotent_backend (new_StreamRenderer 0) [''$a$ and $'', ''b$''])))
   \<and> set (seenFormulas (streamingMathRenderer
         (stream_chunks idempotent_backend (new_StreamRenderer 0) [''$a$ and $'', ''b$'']))) =
       (\<Union>c \<in> set (cumulative [] [''$a$ and $'', ''b$'']). set (extractFormulaSignatures c))"
proof -
  have h1: "renderMathInElement idempotent_backend = Some (\<lambda>e. Returned (max e 1))"
    by (simp add: idempotent_backend_def)
  have h2: "\<exists>e'. (\<lambda>e. Returned (max e 1)) (setInnerHTML idempotent_backend html e) = Returned e'
         \<and> katexCount idempotent_backend (setInnerHTML idempotent_backend html e)
             < katexCount idempotent_backend e'" for html and e :: nat
    by (simp add: idempotent_backend_def)
  have h3: "\<forall>e::nat. max (max e 1) 1 = max e 1" by simp
  from chunked_seen_contains_whole [OF h1 h2, of 0 "[''$a$ and $'', ''b$'']"] h1 h2 h3
  show ?thesis by blast
qed

text \<open>
  C8 (as stated). The final seen-set depends on the chunk boundaries, also with a backend
  that succeeds and is idempotent. Through \<open>appendContent\<close>, the content \<open>$P = $50-$30\<close>
  delivered as \<open>$P = $\<close> and \<open>50-$30\<close> leaves the signature of \<open>P = \<close> in the seen-set, while
  delivered whole it leaves none (the range is masked and the opener has no closer). Fed
  chunk by chunk to \<open>processChunk\<close> itself, \<open>$x^2$\<close> split as \<open>$x^\<close> and \<open>2$\<close> leaves no
  signature, while whole it leaves one.
\<close>

theorem chunking_changes_seen_set:
  "seenFormulas (streamingMathRenderer (stream_chunks idempotent_backend (new_StreamRenderer 0) [''$P = $'', ''50-$30''])) = [''$1fs5v'']
   \<and> seenFormulas (streamingMathRenderer (stream_chunks idempotent_backend (new_StreamRenderer 0) [''$P = $50-$30''])) = []
   \<and> seenFormulas (fst (process_chunks idempotent_backend (new_StreamingMathRenderer, 0) [''$x^'', ''2$''])) = []
   \<and> seenFormulas (fst (process_chunks idempotent_backend (new_StreamingMathRenderer, 0) [''$x^2$''])) = [''$2j9o'']"
  by code_simp

subsection \<open>Token numbering\<close>

lemma decimal_value_digits_of: "decimal_value (digits_of n) = n"
proof (induction n rule: digits_of.induct)
  case (1 n)
  show ?case
  proof (cases "n < 10")
    case True
    then show ?thesis
      by (simp add: digits_of.simps [of n] decimal_value_def code_def)
  next
    case False
    with 1 have ih: "decimal_value (digits_of (n div 10)) = n div 10" by simp
    have "n mod 10 < 10" by simp
    then have "code (char_of (48 + n mod 10)) = 48 + n mod 10"
      by (simp add: code_def)
    with False ih show ?thesis
      by (simp add: digits_of.simps [of n] decimal_value_def)
  qed
qed

lemma digits_of_inj: "digits_of n = digits_of m \<Longrightarrow> n = m"
  by (metis decimal_value_digits_of)

lemma token_inj: "token k n = token k' m \<Longrightarrow> k = k' \<and> n = m"
  by (cases k; cases k') (auto simp: token_def dest: digits_of_inj)

lemma tokens_from_snoc: "tokens_from c (ks @ [k]) = tokens_from c ks @ [token k (c + length ks)]"
  by (induction ks arbitrary: c) auto

lemma token_fresh: "token k (c + length ks) \<notin> set (tokens_from c ks)"
proof (induction ks arbitrary: c)
  case Nil
  show ?case by simp
next
  case (Cons a ks)
  have "token k (c + length (a # ks)) \<noteq> token a c"
    using token_inj [of k "c + length (a # ks)" a c] by auto
  moreover from Cons [of "Suc c"] have "token k (c + length (a # ks)) \<notin> set (tokens_from (Suc c) ks)"
    by simp
  ultimately show ?case by simp
qed

lemma map_set_fresh: "k \<notin> fst ` set m \<Longrightarrow> map_set m k v = m @ [(k, v)]"
  by (induction m) auto

lemma scan_inv_add:
  assumes "scan_inv c0 m c"
  shows "scan_inv c0 (map_set m (token (isPending info) c) info) (c + 1)"
proof -
  let ?ks = "map (\<lambda>e. isPending (snd e)) m"
  from assms have keys: "map fst m = tokens_from c0 ?ks" and c: "c = c0 + length ?ks"
    by (simp_all add: scan_inv_def)
  from token_fresh [of "isPending info" c0 ?ks] keys c
  have "token (isPending info) c \<notin> fst ` set m"
    by (metis list.set_map)
  from map_set_fresh [OF this]
  have "map_set m (token (isPending info) c) info = m @ [(token (isPending info) c, info)]" .
  with keys c show ?thesis
    by (simp add: scan_inv_def tokens_from_snoc)
qed

lemma pending_step_inv:
  assumes "scan_inv c0 (mathMap st) (this_counter st)"
    and "pending_step d st leftPos = Continue st' \<or> pending_step d st leftPos = Break st'"
  shows "scan_inv c0 (mathMap st') (this_counter st')"
proof -
  let ?spc = "indexOf (result st) [LF, LF] leftPos"
  let ?endPos = "case ?spc of Some p \<Rightarrow> p | None \<Rightarrow> length (result st)"
  let ?check = "case ?spc of
                  Some p \<Rightarrow> substring (result st) (leftPos + length (left d)) p
                | None \<Rightarrow> substring_from (substring_from (result st) leftPos) (length (left d))"
  let ?info = "\<lparr> original = substring (result st) leftPos ?endPos,
                  encodedOriginal = encodeBase64 (substring (result st) leftPos ?endPos),
                  mathDisplay = display d, innerContent = ?check, delimiter = d, isPending = True \<rparr>"
  have ph: "''::PENDINGMATH'' @ digits_of (this_counter st) @ ''::'' = token (isPending ?info) (this_counter st)"
    by (simp add: token_def)
  from assms(2) have
    "(mathMap st' = mathMap st \<and> this_counter st' = this_counter st)
     \<or> (mathMap st' = map_set (mathMap st) (token (isPending ?info) (this_counter st)) ?info
        \<and> this_counter st' = this_counter st + 1)"
    unfolding pending_step_def Let_def ph
    by (auto split: if_splits)
  with assms(1) scan_inv_add [OF assms(1), of ?info] show ?thesis by auto
qed

lemma complete_step_inv:
  assumes "scan_inv c0 (mathMap st) (this_counter st)"
    and "complete_step d st leftPos rightPos = Continue st' \<or> complete_step d st leftPos rightPos = Break st'"
  shows "scan_inv c0 (mathMap st') (this_counter st')"
proof -
  let ?info = "\<lparr> original = substring (result st) leftPos (rightPos + length (right d)),
                  encodedOriginal = encodeBase64 (substring (result st) leftPos (rightPos + length (right d))),
                  mathDisplay = display d,
                  innerContent = substring (result st) (leftPos + length (left d)) rightPos,
                  delimiter = d, isPending = False \<rparr>"
  have ph: "''::MATH_'' @ digits_of (this_counter st) @ ''::'' = token (isPending ?info) (this_counter st)"
    by (simp add: token_def)
  from assms(2) have
    "(mathMap st' = mathMap st \<and> this_counter st' = this_counter st)
     \<or> (mathMap st' = map_set (mathMap st) (token (isPending ?info) (this_counter st)) ?info
        \<and> this_counter st' = this_counter st + 1)"
    unfolding complete_step_def Let_def ph
    by (auto split: if_splits)
  with assms(1) scan_inv_add [OF assms(1), of ?info] show ?thesis by auto
qed

lemma scan_step_inv:
  assumes "scan_inv c0 (mathMap st) (this_counter st)"
    and "scan_step d st = Continue st' \<or> scan_step d st = Break st'"
  shows "scan_inv c0 (mathMap st') (this_counter st')"
proof -
  from assms(2) consider
      (same) "mathMap st' = mathMap st" "this_counter st' = this_counter st"
    | (pending) leftPos where
        "pending_step d st leftPos = Continue st' \<or> pending_step d st leftPos = Break st'"
    | (complete) leftPos rightPos where
        "complete_step d st leftPos rightPos = Continue st' \<or> complete_step d st leftPos rightPos = Break st'"
    unfolding scan_step_def
    by (auto split: option.splits if_splits)
  then show ?thesis
  proof cases
    case same
    with assms(1) show ?thesis by simp
  next
    case pending
    from pending_step_inv [OF assms(1) pending] show ?thesis .
  next
    case complete
    from complete_step_inv [OF assms(1) complete] show ?thesis .
  qed
qed

lemma loop_inv:
  "scan_inv c0 (mathMap st) (this_counter st) \<Longrightarrow>
   scan_inv c0 (mathMap (extractAndReplace_loop d st)) (this_counter (extractAndReplace_loop d st))"
proof (induction d st rule: extractAndReplace_loop.induct)
  case (1 d st)
  show ?case
  proof (cases "searchPos st < length (result st)")
    case False
    with "1.prems" show ?thesis by (simp add: extractAndReplace_loop.simps [of d st])
  next
    case True
    show ?thesis
    proof (cases "scan_step d st")
      case (Break st')
      from scan_step_inv [OF "1.prems", of d st'] Break True show ?thesis
        by (simp add: extractAndReplace_loop.simps [of d st])
    next
      case (Continue st')
      from scan_step_inv [OF "1.prems", of d st'] Continue
      have "scan_inv c0 (mathMap st') (this_counter st')" by simp
      from "1.IH" [OF True Continue this] True Continue show ?thesis
        by (simp add: extractAndReplace_loop.simps [of d st])
    qed
  qed
qed

lemma scan_all_inv:
  "scan_inv c0 (fst (snd start)) (snd (snd start)) \<Longrightarrow>
   scan_inv c0 (fst (snd (scan_all ds start))) (snd (snd (scan_all ds start)))"
proof (induction ds arbitrary: start)
  case Nil
  then show ?case by (simp add: scan_all_def)
next
  case (Cons d ds)
  let ?next = "extractAndReplace (snd (snd start)) (fst start) d (fst (snd start))"
  from loop_inv [of c0 "\<lparr> result = fst start, searchPos = 0, mathMap = fst (snd start), this_counter = snd (snd start) \<rparr>" d]
    Cons.prems
  have "scan_inv c0 (fst (snd ?next)) (snd (snd ?next))"
    by (simp add: extractAndReplace_def Let_def)
  from Cons.IH [OF this] show ?case by (simp add: scan_all_def)
qed

text \<open>
  C2 (amended). The tokens of the span table returned by \<open>protect\<close> are numbered
  consecutively in capture order, starting at the value the instance counter has when the
  call begins, and the call leaves the counter past the last number used. \<open>protect\<close> does
  not reset the counter; the constructor and \<open>reset()\<close> set it to 0. So the first span of a
  call gets number 0 on a new instance or right after \<open>reset()\<close>, and otherwise continues
  the numbering of the earlier calls.
\<close>

theorem protect_numbers_from_counter:
  "map fst (resultMap (fst (protect p txt))) =
     tokens_from (counter p) (map (\<lambda>e. isPending (snd e)) (resultMap (fst (protect p txt))))
   \<and> counter (snd (protect p txt)) = counter p + length (resultMap (fst (protect p txt)))
   \<and> counter (new_MathProtector ror dbg) = 0
   \<and> counter (reset p) = 0"
proof (cases "txt = []")
  case True
  then show ?thesis by (simp add: protect_def new_MathProtector_def reset_def)
next
  case False
  let ?masked = "rx_replace False rx_currency_range mask_currency txt 0 (0, [])"
  let ?start = "(fst ?masked, [] :: (string, mathInfo) jsmap, counter p)"
  have "scan_inv (counter p) (fst (snd ?start)) (snd (snd ?start))"
    by (simp add: scan_inv_def)
  from scan_all_inv [OF this, of "delimiters p"] False show ?thesis
    by (simp add: protect_def Let_def scan_inv_def new_MathProtector_def reset_def)
qed

text \<open>
  C2 (as stated). A second \<open>protect\<close> on the same instance, without \<open>reset()\<close> in between,
  does not start at 0: after one span in the first call, the first span of the second call
  is \<open>::MATH_1::\<close>.
\<close>

theorem second_protect_continues_numbering:
  "map fst (resultMap (fst (protect (new_MathProtector True False) ''$x^2$''))) = [''::MATH_0::'']
   \<and> map fst (resultMap (fst (protect (snd (protect (new_MathProtector True False) ''$x^2$'')) ''$y^2$''))) = [''::MATH_1::'']"
  by code_simp

subsection \<open>Tokens that escape\<close>

text \<open>
  C3. No currency mask \<open>::CUR<n>::\<close> should be left in what \<open>protect\<close> returns. The scan
  refuses a complete span whose inner content holds a mask, but the branch for an
  unterminated span has no such check: on \<open>Let $x^2 cost $50-$100\<close> the range is masked, the
  pending span captured from \<open>$x^2\<close> to the end of the paragraph swallows the mask, and the
  unmasking, which only rewrites the protected text, no longer finds it. The returned span
  table holds \<open>::CUR0::\<close> in both \<open>original\<close> and \<open>innerContent\<close>.
\<close>

theorem pending_span_keeps_currency_mask:
  "fst (protect (new_MathProtector ror dbg) ''Let $x^2 cost $50-$100'') =
     \<lparr> protected = ''Let ::PENDINGMATH0::'',
       resultMap =
         [(''::PENDINGMATH0::'',
           \<lparr> original = ''$x^2 cost ::CUR0::'', encodedOriginal = ''JHheMiBjb3N0IDo6Q1VSMDo6'',
             mathDisplay = False, innerContent = ''x^2 cost ::CUR0::'',
             delimiter = SingleDollar, isPending = True \<rparr>)] \<rparr>
   \<and> rx_test False rx_cur_token ''$x^2 cost ::CUR0::'' = True
   \<and> rx_test False rx_cur_token ''x^2 cost ::CUR0::'' = True
   \<and> currencyMap (snd (protect (new_MathProtector ror dbg) ''Let $x^2 cost $50-$100'')) =
       [(''::CUR0::'', ''$50-$100'')]"
  by code_simp

text \<open>
  C1. Protecting and then restoring with rendering disabled should give back a text made
  of well-formed delimiter pairs and prose. The text \<open>$5$x^2 costs $10-$20\<close> is such a text
  (the pairs \<open>$5$\<close> and \<open>$10-$\<close> around prose), but it does not come back: \<open>$5$\<close> is passed
  over as currency, the dollar that closed it then opens an unterminated span, and that
  pending span swallows the mask of the range \<open>$10-$20\<close> as in C3. The restored text ends in
  \<open>::CUR0::\<close> where the input had \<open>$10-$20\<close>.
\<close>

theorem roundtrip_loses_currency_range:
  "well_formed_text [Span SingleDollar ''5'', Prose ''x^2 costs '', Span SingleDollar ''10-'', Prose ''20'']
   \<and> text_of [Span SingleDollar ''5'', Prose ''x^2 costs '', Span SingleDollar ''10-'', Prose ''20'']
       = ''$5$x^2 costs $10-$20''
   \<and> fst (protect (new_MathProtector False dbg) ''$5$x^2 costs $10-$20'') =
       \<lparr> protected = ''$5::PENDINGMATH0::'',
         resultMap =
           [(''::PENDINGMATH0::'',
             \<lparr> original = ''$x^2 costs ::CUR0::'', encodedOriginal = ''JHheMiBjb3N0cyA6OkNVUjA6Og=='',
               mathDisplay = False, innerContent = ''x^2 costs ::CUR0::'',
               delimiter = SingleDollar, isPending = True \<rparr>)] \<rparr>
   \<and> restore (new_MathProtector False dbg) None
         (protected (fst (protect (new_MathProtector False dbg) ''$5$x^2 costs $10-$20'')))
         (resultMap (fst (protect (new_MathProtector False dbg) ''$5$x^2 costs $10-$20''))) =
       Inr ''$5$x^2 costs ::CUR0::''"
  by code_simp

text \<open>
  The round trip also breaks in a second way, independent of currency masks. The scan for
  single dollars runs last and may capture a token left by an earlier scan; \<open>restore\<close>
  replaces tokens in reverse lexical order, which puts \<open>::MATH_10::\<close> after \<open>::MATH_9::\<close>. When
  span 10 holds the token of span 9, that token reappears after its turn has passed and
  stays in the output.
\<close>

lemma restore_order_leaves_inner_token:
  "(let r = fst (protect (new_MathProtector False dbg) eleven_spans_input)
    in (protected r,
        map (\<lambda>e. (fst e, original (snd e))) (drop 9 (resultMap r)),
        rev (js_sort (map fst (resultMap r))),
        restore (new_MathProtector False dbg) None (protected r) (resultMap r))) =
   (''::MATH_0:: ::MATH_1:: ::MATH_2:: ::MATH_3:: ::MATH_4:: ::MATH_5:: ::MATH_6:: ::MATH_7:: ::MATH_8:: ::MATH_10::6'',
    [(''::MATH_9::'', ''$$x$$''), (''::MATH_10::'', ''$5 for ::MATH_9:: and $'')],
    [''::MATH_9::'', ''::MATH_8::'', ''::MATH_7::'', ''::MATH_6::'', ''::MATH_5::'', ''::MATH_4::'',
     ''::MATH_3::'', ''::MATH_2::'', ''::MATH_1::'', ''::MATH_10::'', ''::MATH_0::''],
    Inr ''$$a$$ $$b$$ $$c$$ $$d$$ $$e$$ $$f$$ $$g$$ $$h$$ $$i$$ $5 for ::MATH_9:: and $6'')"
  by code_simp

end
